theory Spec2Isabelle
  imports Complex_Main
begin

section \<open>Text\<close>

text \<open>
  A Python string is modelled as a \<^typ>\<open>string\<close>: the bytes of its UTF-8 encoding.
  Equality, emptiness, the substring test \<^verbatim>\<open>a in b\<close>, \<^verbatim>\<open>str.endswith\<close> and the
  replacement of the comma then agree with Python's operations on code points.

  \<^verbatim>\<open>str.strip\<close>, \<^verbatim>\<open>str.lower\<close> and \<^verbatim>\<open>str.split\<close> follow the Unicode tables
  (blanks such as U+00A0 and U+3000, letters beyond A to Z). They are taken from
  outside, like the file system: every statement about the dictionary and the retrieval
  holds for whatever these three functions are.
\<close>

record text_ops =
  str_strip :: "string \<Rightarrow> string"
  str_lower :: "string \<Rightarrow> string"
  str_split :: "string \<Rightarrow> string list"

text \<open>
  The same three operations restricted to ASCII: the blanks and the letters A to Z of
  the ASCII range only. On ASCII text they are what Python computes. They serve the
  extension test of the scanner and the worked examples.
\<close>

definition ascii_isspace :: "char \<Rightarrow> bool" where
  "ascii_isspace c =
     (c \<in> set [CHR '' '', CHR 0x09, CHR 0x0A, CHR 0x0B, CHR 0x0C, CHR 0x0D,
                CHR 0x1C, CHR 0x1D, CHR 0x1E, CHR 0x1F])"

definition ascii_strip :: "string \<Rightarrow> string" where
  "ascii_strip s = rev (dropWhile ascii_isspace (rev (dropWhile ascii_isspace s)))"

definition ascii_lower_char :: "char \<Rightarrow> char" where
  "ascii_lower_char c =
     (let n = (of_char c :: nat) in if 65 \<le> n \<and> n \<le> 90 then char_of (n + 32) else c)"

definition ascii_lower :: "string \<Rightarrow> string" where
  "ascii_lower s = map ascii_lower_char s"

fun ascii_split_acc :: "string \<Rightarrow> string \<Rightarrow> string list" where
  "ascii_split_acc cur [] = (if cur = [] then [] else [cur])"
| "ascii_split_acc cur (c # cs) =
     (if ascii_isspace c
      then (if cur = [] then ascii_split_acc [] cs else cur # ascii_split_acc [] cs)
      else ascii_split_acc (cur @ [c]) cs)"

definition ascii_split :: "string \<Rightarrow> string list" where
  "ascii_split s = ascii_split_acc [] s"

definition ascii_text :: text_ops where
  "ascii_text = \<lparr>str_strip = ascii_strip, str_lower = ascii_lower, str_split = ascii_split\<rparr>"

definition replace_comma :: "string \<Rightarrow> string" where
  "replace_comma s = map (\<lambda>c. if c = CHR '','' then CHR '' '' else c) s"

definition endswith :: "string \<Rightarrow> string \<Rightarrow> bool" where
  "endswith s suf = (length suf \<le> length s \<and> drop (length s - length suf) s = suf)"

definition startswith :: "string \<Rightarrow> string \<Rightarrow> bool" where
  "startswith s pre = (take (length pre) s = pre)"

fun contains :: "string \<Rightarrow> string \<Rightarrow> bool" where
  "contains [] sub = (sub = [])"
| "contains (c # cs) sub = (startswith (c # cs) sub \<or> contains cs sub)"

section \<open>Index store (database_manager.py)\<close>

text \<open>A tag as the tagger hands it over: the dict with keys \<^verbatim>\<open>tag_name\<close> and \<^verbatim>\<open>score\<close>.\<close>

record tag =
  tag_name :: string
  score :: real

text \<open>Rows of table \<^verbatim>\<open>images\<close>.\<close>

record image_row =
  image_id :: int
  file_path :: string
  date_scanned :: string
  is_favorite :: int

text \<open>Rows of table \<^verbatim>\<open>tags\<close>; the columns carry the prefix \<open>t_\<close>.\<close>

record tag_row =
  t_tag_id :: int
  t_image_id :: int
  t_tag_name :: string
  t_score :: real

text \<open>
  The database file: both tables in row order and the two AUTOINCREMENT counters
  (the largest key handed out so far).
\<close>

record database =
  images :: "image_row list"
  tags_tbl :: "tag_row list"
  seq_images :: int
  seq_tags :: int

definition empty_db :: database where
  "empty_db = \<lparr>images = [], tags_tbl = [], seq_images = 0, seq_tags = 0\<rparr>"

text \<open>One element of the list that \<^verbatim>\<open>get_all_indexed_images\<close> returns.\<close>

record image_item =
  item_image_id :: int
  item_file_path :: string
  item_is_favorite :: bool
  item_tags :: "tag list"

text \<open>
  \<^verbatim>\<open>get_all_indexed_file_paths\<close>. The flag \<open>sqlite_error\<close> says that the query raised
  \<^verbatim>\<open>sqlite3.Error\<close>; \<open>normpath\<close> stands for \<^verbatim>\<open>os.path.normpath\<close>.
\<close>

definition get_all_indexed_file_paths ::
  "(string \<Rightarrow> string) \<Rightarrow> bool \<Rightarrow> database \<Rightarrow> string set" where
  "get_all_indexed_file_paths normpath sqlite_error db =
     (if sqlite_error then {} else set (map (\<lambda>row. normpath (file_path row)) (images db)))"

text \<open>The upsert of \<^verbatim>\<open>save_tags_to_db\<close>: refresh the timestamp of the row with this
  path, or append a row with a fresh key and the column default \<open>is_favorite = 0\<close>.
  AUTOINCREMENT hands out a key in both cases: the insert that runs into the conflict
  has taken one before it is turned into the update.\<close>

definition upsert_image :: "database \<Rightarrow> string \<Rightarrow> string \<Rightarrow> database" where
  "upsert_image db normalized_path now =
     (if \<exists>row \<in> set (images db). file_path row = normalized_path
      then db\<lparr>images := map (\<lambda>row. if file_path row = normalized_path
                                     then row\<lparr>date_scanned := now\<rparr> else row) (images db),
              seq_images := seq_images db + 1\<rparr>
      else db\<lparr>images := images db @
                  [\<lparr>image_id = seq_images db + 1, file_path = normalized_path,
                    date_scanned = now, is_favorite = 0\<rparr>],
              seq_images := seq_images db + 1\<rparr>)"

text \<open>\<^verbatim>\<open>SELECT image_id FROM images WHERE file_path = ?\<close> followed by \<^verbatim>\<open>fetchone()\<close>.\<close>

definition select_image_id :: "database \<Rightarrow> string \<Rightarrow> int option" where
  "select_image_id db normalized_path =
     map_option image_id (find (\<lambda>row. file_path row = normalized_path) (images db))"

definition delete_tags :: "database \<Rightarrow> int \<Rightarrow> database" where
  "delete_tags db iid = db\<lparr>tags_tbl := filter (\<lambda>t. t_image_id t \<noteq> iid) (tags_tbl db)\<rparr>"

definition insert_tags :: "database \<Rightarrow> int \<Rightarrow> tag list \<Rightarrow> database" where
  "insert_tags db iid tags =
     db\<lparr>tags_tbl := tags_tbl db @
          map (\<lambda>(i, tg). \<lparr>t_tag_id = seq_tags db + 1 + int i, t_image_id = iid,
                           t_tag_name = tag_name tg, t_score = score tg\<rparr>)
              (enumerate 0 tags),
        seq_tags := seq_tags db + int (length tags)\<rparr>"

text \<open>
  \<^verbatim>\<open>save_tags_to_db\<close>. The statements between BEGIN and COMMIT run on a working copy.
  When one of them (or the commit) raises \<^verbatim>\<open>sqlite3.Error\<close> (\<open>sqlite_error\<close>), the
  rollback discards the copy and the call returns False. \<open>None\<close> is the TypeError of
  \<^verbatim>\<open>fetchone()[0]\<close> on an empty result, which is not caught by the method.
\<close>

definition save_tags_to_db ::
  "(string \<Rightarrow> string) \<Rightarrow> string \<Rightarrow> bool \<Rightarrow> database \<Rightarrow> string \<Rightarrow> tag list
     \<Rightarrow> (database \<times> bool) option" where
  "save_tags_to_db normpath now sqlite_error db path tags =
     (if sqlite_error then Some (db, False)
      else
        let normalized_path = normpath path;
            db1 = upsert_image db normalized_path now
        in case select_image_id db1 normalized_path of
             None \<Rightarrow> None
           | Some iid \<Rightarrow>
               let db2 = delete_tags db1 iid;
                   db3 = (if tags \<noteq> [] then insert_tags db2 iid tags else db2)
               in Some (db3, True))"

text \<open>\<^verbatim>\<open>get_all_indexed_tags\<close>.\<close>

definition get_all_indexed_tags :: "bool \<Rightarrow> database \<Rightarrow> string set" where
  "get_all_indexed_tags sqlite_error db =
     (if sqlite_error then {} else set (map t_tag_name (tags_tbl db)))"

text \<open>
  The inner join of \<^verbatim>\<open>get_all_indexed_images\<close>, ordered by image key and then by
  descending score (two stable sorts; SQL leaves the order of equal scores open).
\<close>

record join_row =
  j_image_id :: int
  j_file_path :: string
  j_is_favorite :: int
  j_tag_name :: string
  j_score :: real

definition join_rows :: "database \<Rightarrow> join_row list" where
  "join_rows db =
     [\<lparr>j_image_id = t_image_id t, j_file_path = file_path im, j_is_favorite = is_favorite im,
       j_tag_name = t_tag_name t, j_score = t_score t\<rparr>.
      t \<leftarrow> tags_tbl db, im \<leftarrow> images db, t_image_id t = image_id im]"

definition ordered_rows :: "database \<Rightarrow> join_row list" where
  "ordered_rows db = sort_key j_image_id (sort_key (\<lambda>r. - j_score r) (join_rows db))"

text \<open>The grouping loop: \<open>image_results\<close> is a dict in insertion order.\<close>

definition add_tag :: "join_row \<Rightarrow> int \<times> image_item \<Rightarrow> int \<times> image_item" where
  "add_tag row = (\<lambda>(k', it). if k' = j_image_id row
                then (k', it\<lparr>item_tags := item_tags it @
                                 [\<lparr>tag_name = j_tag_name row, score = j_score row\<rparr>]\<rparr>)
                else (k', it))"

definition add_row :: "(int \<times> image_item) list \<Rightarrow> join_row \<Rightarrow> (int \<times> image_item) list" where
  "add_row image_results row =
     (let k = j_image_id row;
          res1 = (if k \<notin> fst ` set image_results
                  then image_results @
                         [(k, \<lparr>item_image_id = k, item_file_path = j_file_path row,
                               item_is_favorite = (j_is_favorite row \<noteq> 0), item_tags = []\<rparr>)]
                  else image_results)
      in map (add_tag row) res1)"

fun group_rows :: "join_row list \<Rightarrow> (int \<times> image_item) list \<Rightarrow> (int \<times> image_item) list" where
  "group_rows [] image_results = image_results"
| "group_rows (row # rows) image_results = group_rows rows (add_row image_results row)"

definition get_all_indexed_images :: "bool \<Rightarrow> database \<Rightarrow> image_item list" where
  "get_all_indexed_images sqlite_error db =
     (if sqlite_error then [] else map snd (group_rows (ordered_rows db) []))"

text \<open>
  \<^verbatim>\<open>toggle_favorite_status\<close>: the UPDATE, the SELECT of the new value, the commit.
  On \<^verbatim>\<open>sqlite3.Error\<close> the update is rolled back and the result is False.
\<close>

definition toggle_favorite_status :: "bool \<Rightarrow> database \<Rightarrow> int \<Rightarrow> database \<times> bool" where
  "toggle_favorite_status sqlite_error db iid =
     (if sqlite_error then (db, False)
      else
        let db1 = db\<lparr>images := map (\<lambda>row. if image_id row = iid
                                  then row\<lparr>is_favorite := 1 - is_favorite row\<rparr> else row)
                                 (images db)\<rparr>;
            new_status = find (\<lambda>row. image_id row = iid) (images db1)
        in case new_status of
             Some row \<Rightarrow> (db1, is_favorite row \<noteq> 0)
           | None \<Rightarrow> (db1, False))"

text \<open>The tag assignments stored for a path, in row order.\<close>

definition stored_tags :: "database \<Rightarrow> string \<Rightarrow> tag list" where
  "stored_tags db p =
     (case select_image_id db p of
        None \<Rightarrow> []
      | Some iid \<Rightarrow> map (\<lambda>t. \<lparr>tag_name = t_tag_name t, score = t_score t\<rparr>)
                        (filter (\<lambda>t. t_image_id t = iid) (tags_tbl db)))"

text \<open>
  What the schema guarantees of every database the store produces: the primary key and
  the UNIQUE path are distinct, keys come from the counter, the flag is 0 or 1.
\<close>

definition db_ok :: "database \<Rightarrow> bool" where
  "db_ok db =
     (distinct (map image_id (images db)) \<and> distinct (map file_path (images db)) \<and>
      (\<forall>row \<in> set (images db). image_id row \<le> seq_images db \<and>
                                  (is_favorite row = 0 \<or> is_favorite row = 1)))"

section \<open>Tag dictionary (dictionary_manager.py)\<close>

text \<open>
  A Python dict keeps its keys in insertion order: storing under a key that is present
  replaces the value in place, a new key goes to the end.
\<close>

definition dict_set :: "('k \<times> 'v) list \<Rightarrow> 'k \<Rightarrow> 'v \<Rightarrow> ('k \<times> 'v) list" where
  "dict_set d k v =
     (if k \<in> fst ` set d then map (\<lambda>(k', v'). if k' = k then (k', v) else (k', v')) d
      else d @ [(k, v)])"

record dictionary =
  cn_to_en_tag :: "(string \<times> string) list"
  en_to_cn_tag :: "(string \<times> string) list"
  all_cn_tags :: "string list"

definition empty_dictionary :: dictionary where
  "empty_dictionary = \<lparr>cn_to_en_tag = [], en_to_cn_tag = [], all_cn_tags = []\<rparr>"

text \<open>
  The data frame after \<^verbatim>\<open>dropna\<close>, as pairs (tag, right_tag_cn) of text cells; the
  cleaning lower-cases the tag and strips both, and the \<^verbatim>\<open>zip\<close> yields (cn, en).
\<close>

definition clean_rows ::
  "text_ops \<Rightarrow> (string \<times> string) list \<Rightarrow> (string \<times> string) list" where
  "clean_rows tx df =
     map (\<lambda>(tag, right_tag_cn).
            (str_strip tx right_tag_cn, str_lower tx (str_strip tx tag))) df"

fun load_loop :: "(string \<times> string) list \<Rightarrow> dictionary \<Rightarrow> dictionary" where
  "load_loop [] d = d"
| "load_loop ((cn_tag, en_tag) # rest) d =
     load_loop rest (d\<lparr>cn_to_en_tag := dict_set (cn_to_en_tag d) cn_tag en_tag,
                       en_to_cn_tag := dict_set (en_to_cn_tag d) en_tag cn_tag\<rparr>)"

text \<open>\<^verbatim>\<open>_load_dictionary\<close>; \<open>None\<close> is a missing or unreadable file.\<close>

definition load_dictionary ::
  "text_ops \<Rightarrow> (string \<times> string) list option \<Rightarrow> dictionary" where
  "load_dictionary tx source =
     (case source of
        None \<Rightarrow> empty_dictionary
      | Some df \<Rightarrow>
          let d = load_loop (clean_rows tx df) empty_dictionary
          in d\<lparr>all_cn_tags := map fst (cn_to_en_tag d)\<rparr>)"

definition fuzzy_lookup_suggestions ::
  "text_ops \<Rightarrow> dictionary \<Rightarrow> string \<Rightarrow> string set option \<Rightarrow> string list" where
  "fuzzy_lookup_suggestions tx d partial_cn_term allowed_en_tags =
     (let partial = str_strip tx partial_cn_term
      in if partial = [] then []
         else
           let raw_suggestions = filter (\<lambda>cn_tag. contains cn_tag partial) (all_cn_tags d)
           in case allowed_en_tags of
                None \<Rightarrow> take 200 raw_suggestions
              | Some allowed \<Rightarrow>
                  take 200 (filter (\<lambda>cn_tag. case map_of (cn_to_en_tag d) cn_tag of
                                                 None \<Rightarrow> False
                                               | Some en_tag \<Rightarrow> en_tag \<noteq> [] \<and> en_tag \<in> allowed)
                                   raw_suggestions))"

text \<open>\<^verbatim>\<open>get_search_tags_from_cn_list\<close>; the result is a set turned into a list, and the
  only caller turns it into a set again.\<close>

definition get_search_tags_from_cn_list :: "dictionary \<Rightarrow> string list \<Rightarrow> string set" where
  "get_search_tags_from_cn_list d cn_terms =
     set (List.map_filter (\<lambda>cn_term. case map_of (cn_to_en_tag d) cn_term of
                                         None \<Rightarrow> None
                                       | Some en_tag \<Rightarrow> if en_tag \<noteq> [] then Some en_tag else None)
                          cn_terms)"

definition lookup_en_to_cn :: "dictionary \<Rightarrow> string \<Rightarrow> string option" where
  "lookup_en_to_cn d en_tag = map_of (en_to_cn_tag d) en_tag"

definition is_cn_tag :: "dictionary \<Rightarrow> string \<Rightarrow> bool" where
  "is_cn_tag d cn_tag = (cn_tag \<in> fst ` set (cn_to_en_tag d))"

section \<open>Retrieval (search_images_wrapper in app.py)\<close>

text \<open>
  The texts shown to the user are kept as data: which message, with which arguments.
  Rendering (the Chinese wording, \<^verbatim>\<open>os.path.basename\<close>, two-digit scores) is left out.
\<close>

datatype criterion =
    CnExact string
  | CnFuzzy string nat
  | EnFuzzy "string list"
  | FileName string
  | FavoritesOnly

datatype message =
    NoTagsFound string
  | DatabaseEmpty
  | ShowingAll nat real real
  | Criteria "criterion list" real real nat

datatype heading = HighScoreTags | AllTags | MatchedTags

datatype mark = Plain | MarkCn | MarkEn

record title =
  title_heading :: heading
  title_file :: string
  title_lines :: "(mark \<times> tag) list"

record search_result =
  output_data :: "(string \<times> title) list"
  final_message :: message
  filtered_raw_results :: "image_item list"
  gallery_state :: "(nat \<times> string) list"

definition in_range :: "real \<Rightarrow> real \<Rightarrow> tag \<Rightarrow> bool" where
  "in_range min_score max_score t = (min_score \<le> score t \<and> score t \<le> max_score)"

text \<open>The inner loop over the tags of one image: which tags match, and how.\<close>

definition matched_tags ::
  "string set \<Rightarrow> string list \<Rightarrow> real \<Rightarrow> real \<Rightarrow> tag list \<Rightarrow> (mark \<times> tag) list" where
  "matched_tags cn_search_tags en_fuzzy_terms min_score max_score tags =
     List.map_filter
       (\<lambda>tag_info.
          if \<not> in_range min_score max_score tag_info then None
          else if tag_name tag_info \<in> cn_search_tags then Some (MarkCn, tag_info)
          else if \<exists>term \<in> set en_fuzzy_terms. contains (tag_name tag_info) term
               then Some (MarkEn, tag_info)
          else None)
       tags"

text \<open>The body of the filter loop for one image: \<open>None\<close> when the image is skipped.\<close>

definition filter_item ::
  "text_ops \<Rightarrow> bool \<Rightarrow> string set \<Rightarrow> string list \<Rightarrow> string \<Rightarrow> real \<Rightarrow> real \<Rightarrow> bool
     \<Rightarrow> image_item \<Rightarrow> title option" where
  "filter_item tx user_intended_search cn_search_tags en_fuzzy_terms file_name_input
               min_score max_score show_favorites item =
     (if show_favorites \<and> \<not> item_is_favorite item then None
      else if file_name_input \<noteq> [] \<and> \<not> contains (str_lower tx (item_file_path item)) file_name_input
      then None
      else if cn_search_tags = {} \<and> en_fuzzy_terms = [] then
        (if \<not> user_intended_search then
           (let tags_in_range = filter (in_range min_score max_score) (item_tags item)
            in if tags_in_range = [] then None
               else Some \<lparr>title_heading = HighScoreTags, title_file = item_file_path item,
                          title_lines = map (Pair Plain) (take 5 tags_in_range)\<rparr>)
         else Some \<lparr>title_heading = AllTags, title_file = item_file_path item,
                    title_lines = map (Pair Plain) (take 5 (item_tags item))\<rparr>)
      else
        (let matched = matched_tags cn_search_tags en_fuzzy_terms min_score max_score
                                    (item_tags item)
         in if matched \<noteq> []
            then Some \<lparr>title_heading = MatchedTags, title_file = item_file_path item,
                       title_lines = matched\<rparr>
            else None))"

fun filter_loop ::
  "(image_item \<Rightarrow> title option) \<Rightarrow> image_item list
     \<Rightarrow> (string \<times> title) list \<times> image_item list" where
  "filter_loop f [] = ([], [])"
| "filter_loop f (item # rest) =
     (let (out, raw) = filter_loop f rest
      in case f item of
           None \<Rightarrow> (out, raw)
         | Some t \<Rightarrow> ((item_file_path item, t) # out, item # raw))"

text \<open>
  Steps 4 to 7 of \<^verbatim>\<open>search_images_wrapper\<close>, given what steps 1 to 3 computed:
  the check for a search that resolved to nothing, the empty corpus, the filter loop
  and the summary. \<open>parts\<close> are the criteria collected so far for the summary.
\<close>

definition run_filter ::
  "text_ops \<Rightarrow> bool \<Rightarrow> string set \<Rightarrow> string list \<Rightarrow> string \<Rightarrow> string \<Rightarrow> criterion list
     \<Rightarrow> image_item list \<Rightarrow> real \<Rightarrow> real \<Rightarrow> bool \<Rightarrow> search_result" where
  "run_filter tx user_intended_search cn_search_tags en_fuzzy_terms file_name_input
              cn_partial_input parts all_images_data min_score max_score show_favorites =
     (if user_intended_search \<and> cn_search_tags = {} \<and> en_fuzzy_terms = [] \<and>
         file_name_input = [] \<and> \<not> show_favorites
      then \<lparr>output_data = [], final_message = NoTagsFound cn_partial_input,
            filtered_raw_results = [], gallery_state = []\<rparr>
      else if all_images_data = []
      then \<lparr>output_data = [], final_message = DatabaseEmpty,
            filtered_raw_results = [], gallery_state = []\<rparr>
      else
        let (out, raw) =
              filter_loop (filter_item tx user_intended_search cn_search_tags
                             en_fuzzy_terms file_name_input min_score max_score
                             show_favorites) all_images_data;
            parts3 = parts @ (if file_name_input \<noteq> [] then [FileName file_name_input] else [])
                           @ (if show_favorites then [FavoritesOnly] else [])
        in \<lparr>output_data = out,
            final_message =
              (if parts3 = [] then ShowingAll (length out) min_score max_score
               else Criteria parts3 min_score max_score (length out)),
            filtered_raw_results = raw,
            gallery_state = enumerate 0 (map item_file_path raw)\<rparr>)"

text \<open>Step 3: the tokens of the English field.\<close>

definition parse_terms :: "text_ops \<Rightarrow> string \<Rightarrow> string list" where
  "parse_terms tx english_input =
     (if english_input \<noteq> []
      then filter (\<lambda>t. t \<noteq> [])
             (map (str_strip tx) (str_split tx (replace_comma english_input)))
      else [])"

text \<open>Step 2: the exact Chinese terms to search, from the selection or the substring.\<close>

definition cn_terms_to_search ::
  "text_ops \<Rightarrow> dictionary \<Rightarrow> string set \<Rightarrow> string \<Rightarrow> string \<Rightarrow> string list" where
  "cn_terms_to_search tx dm allowed_en_tags selected_tag cn_partial_input =
     (if selected_tag \<noteq> [] then [selected_tag]
      else if cn_partial_input \<noteq> []
      then fuzzy_lookup_suggestions tx dm cn_partial_input (Some allowed_en_tags)
      else [])"

text \<open>
  \<^verbatim>\<open>search_images_wrapper\<close>. \<open>tags_error\<close> and \<open>images_error\<close> say that the read of the
  indexed tag names, of the corpus, raised \<^verbatim>\<open>sqlite3.Error\<close> inside the store.
  A selection of \<open>None\<close> and an empty selection are both false in Python.
\<close>

definition search_images_wrapper ::
  "text_ops \<Rightarrow> dictionary \<Rightarrow> database \<Rightarrow> bool \<Rightarrow> bool \<Rightarrow> string \<Rightarrow> string option \<Rightarrow> string \<Rightarrow> string
     \<Rightarrow> real \<Rightarrow> real \<Rightarrow> bool \<Rightarrow> search_result" where
  "search_images_wrapper tx dm db tags_error images_error cn_partial_input0 cn_selected_tag
                         english_input0 file_name_input0 min_score max_score show_favorites =
     (let cn_partial_input = str_strip tx cn_partial_input0;
          english_input = str_lower tx (str_strip tx english_input0);
          file_name_input = str_lower tx (str_strip tx file_name_input0);
          selected_tag = (case cn_selected_tag of None \<Rightarrow> [] | Some s \<Rightarrow> s);
          user_intended_search =
            (cn_partial_input \<noteq> [] \<or> english_input \<noteq> [] \<or> selected_tag \<noteq> [] \<or>
             file_name_input \<noteq> [] \<or> show_favorites);
          cn_terms = cn_terms_to_search tx dm (get_all_indexed_tags tags_error db)
                       selected_tag cn_partial_input;
          parts1 =
            (if selected_tag \<noteq> [] then [CnExact selected_tag]
             else if cn_partial_input \<noteq> []
             then [CnFuzzy cn_partial_input (length cn_terms)] else []);
          cn_search_tags = get_search_tags_from_cn_list dm cn_terms;
          en_fuzzy_terms = parse_terms tx english_input;
          parts2 = parts1 @ (if english_input \<noteq> [] then [EnFuzzy en_fuzzy_terms] else [])
      in run_filter tx user_intended_search cn_search_tags en_fuzzy_terms file_name_input
           cn_partial_input parts2 (get_all_indexed_images images_error db)
           min_score max_score show_favorites)"

section \<open>Scan controller (scanner_engine.py)\<close>

record status =
  is_scanning :: bool
  total_files :: int
  files_processed :: int
  progress_percent :: int
  folder :: string

definition initial_status :: status where
  "initial_status = \<lparr>is_scanning = False, total_files = 0, files_processed = 0,
                      progress_percent = 0, folder = []\<rparr>"

text \<open>
  What the engine takes from outside: the file system (\<^verbatim>\<open>os.path.isdir\<close>,
  \<^verbatim>\<open>os.walk\<close> as the list of (root, files), \<^verbatim>\<open>os.path.join\<close>,
  \<^verbatim>\<open>os.path.normpath\<close>), the tagger (\<open>None\<close> when \<^verbatim>\<open>process_image\<close> raises), the
  clock, the store's failures, and \<open>percent p t\<close> for the float expression
  \<^verbatim>\<open>int((p / t) * 100)\<close>.
\<close>

record env =
  os_isdir :: "string \<Rightarrow> bool"
  os_walk :: "string \<Rightarrow> (string \<times> string list) list"
  os_join :: "string \<Rightarrow> string \<Rightarrow> string"
  os_normpath :: "string \<Rightarrow> string"
  process_image :: "string \<Rightarrow> tag list option"
  clock :: "string \<Rightarrow> string"
  save_error :: "string \<Rightarrow> bool"
  paths_error :: bool
  percent :: "int \<Rightarrow> int \<Rightarrow> int"

definition SUPPORTED_EXTENSIONS :: "string list" where
  "SUPPORTED_EXTENSIONS = [''.jpg'', ''.jpeg'', ''.png'', ''.gif'']"

text \<open>
  \<^verbatim>\<open>file.lower().endswith(SUPPORTED_EXTENSIONS)\<close>. Lower-casing the letters A to Z
  is enough here: no other character lower-cases to a text that ends in a character of
  the four extensions.
\<close>

definition supported :: "string \<Rightarrow> bool" where
  "supported file = (\<exists>ext \<in> set SUPPORTED_EXTENSIONS. endswith (ascii_lower file) ext)"

text \<open>The first pass: every supported file under the folder, normalised, in walk order.\<close>

definition all_files_in_folder :: "env \<Rightarrow> string \<Rightarrow> string list" where
  "all_files_in_folder e folder_path =
     concat (map (\<lambda>(root, files).
                    map (\<lambda>file. os_normpath e (os_join e root file)) (filter supported files))
                 (os_walk e folder_path))"

definition files_to_scan :: "bool \<Rightarrow> string set \<Rightarrow> string list \<Rightarrow> string list" where
  "files_to_scan force_rescan already_indexed_paths all_files =
     filter (\<lambda>normalized_path. \<not> (\<not> force_rescan \<and> normalized_path \<in> already_indexed_paths))
            all_files"

datatype log = AlreadyScanning | EngineStart string bool | InvalidPath string | UnknownError

text \<open>
  The state a scan threads through: the status record, the database, every status a
  reader could see (one per locked block, in order), the paths handed to
  \<^verbatim>\<open>process_image\<close>, and the messages printed (the per-file lines are left out).
\<close>

record scan_state =
  st_status :: status
  st_db :: database
  st_trace :: "status list"
  st_tagged :: "string list"
  st_log :: "log list"

text \<open>
  The body of the loop over \<open>files_to_scan\<close> for one file, up to the callback: tag,
  save when the tag list is not empty, then update the progress under the lock.
  Exceptions of the tagger and of the save are caught here and only skip the save.
\<close>

definition process_file :: "env \<Rightarrow> int \<Rightarrow> scan_state \<Rightarrow> string \<Rightarrow> scan_state" where
  "process_file e n_total s fpath =
     (let db1 =
            (case process_image e fpath of
               None \<Rightarrow> st_db s
             | Some tags_list \<Rightarrow>
                 if tags_list \<noteq> [] then
                   (case save_tags_to_db (os_normpath e) (clock e fpath)
                           (save_error e fpath) (st_db s) fpath tags_list of
                      None \<Rightarrow> st_db s
                    | Some (db', ok) \<Rightarrow> db')
                 else st_db s);
          processed = files_processed (st_status s) + 1;
          status1 = (st_status s)
            \<lparr>files_processed := processed,
             progress_percent := (if n_total > 0 then percent e processed n_total else 100)\<rparr>
      in s\<lparr>st_status := status1, st_db := db1, st_trace := st_trace s @ [status1],
           st_tagged := st_tagged s @ [fpath]\<rparr>)"

text \<open>
  The loop. The callback receives a copy of the status; when it raises (\<open>False\<close>)
  the loop is left, and the flag returned says so.
\<close>

fun scan_loop ::
  "env \<Rightarrow> (status \<Rightarrow> bool) option \<Rightarrow> int \<Rightarrow> string list \<Rightarrow> scan_state \<Rightarrow> scan_state \<times> bool"
  where
  "scan_loop e progress_callback n_total [] s = (s, False)"
| "scan_loop e progress_callback n_total (fpath # rest) s =
     (let s1 = process_file e n_total s fpath
      in case progress_callback of
           None \<Rightarrow> scan_loop e progress_callback n_total rest s1
         | Some cb \<Rightarrow> if cb (st_status s1) then scan_loop e progress_callback n_total rest s1
                      else (s1, True))"

text \<open>The \<^verbatim>\<open>finally\<close> block.\<close>

definition finish :: "status \<Rightarrow> status" where
  "finish st =
     (let st1 = st\<lparr>is_scanning := False\<rparr>
      in if total_files st1 > 0
         then st1\<lparr>files_processed := total_files st1, progress_percent := 100\<rparr>
         else if total_files st1 = 0 then st1\<lparr>files_processed := 0, progress_percent := 0\<rparr>
         else st1)"

text \<open>Step 1: the paths to skip; none when the rescan is forced.\<close>

definition already_indexed :: "env \<Rightarrow> database \<Rightarrow> bool \<Rightarrow> string set" where
  "already_indexed e db force_rescan =
     (if force_rescan then {}
      else get_all_indexed_file_paths (os_normpath e) (paths_error e) db)"

text \<open>
  Step 3: the counters before the loop. \<open>st1\<close> is the status set on entry; the total is
  the number of files found, the processed count starts at the size of the skip set.
\<close>

definition scan_setup :: "env \<Rightarrow> status \<Rightarrow> database \<Rightarrow> string \<Rightarrow> bool \<Rightarrow> scan_state" where
  "scan_setup e st1 db folder_path force_rescan =
     (let already_indexed_paths = already_indexed e db force_rescan;
          all_files = all_files_in_folder e folder_path;
          n_total = int (length all_files);
          processed0 = (if force_rescan then 0 else int (card already_indexed_paths));
          st3 = st1\<lparr>total_files := n_total, files_processed := processed0,
                    progress_percent :=
                      (if n_total > 0 then percent e processed0 n_total else 0)\<rparr>
      in \<lparr>st_status = st3, st_db = db, st_trace = [st1, st3], st_tagged = [],
          st_log = [EngineStart folder_path force_rescan]\<rparr>)"

definition start_scan ::
  "env \<Rightarrow> (status \<Rightarrow> bool) option \<Rightarrow> status \<Rightarrow> database \<Rightarrow> string \<Rightarrow> bool \<Rightarrow> scan_state"
  where
  "start_scan e progress_callback st db folder_path force_rescan =
     (if is_scanning st
      then \<lparr>st_status = st, st_db = db, st_trace = [], st_tagged = [],
            st_log = [AlreadyScanning]\<rparr>
      else
        let st1 = st\<lparr>is_scanning := True, total_files := 0, files_processed := 0,
                     progress_percent := 0, folder := folder_path\<rparr>
        in if \<not> os_isdir e folder_path
           then
             (let st2 = st1\<lparr>is_scanning := False\<rparr>
              in \<lparr>st_status = st2, st_db = db, st_trace = [st1, st2], st_tagged = [],
                  st_log = [EngineStart folder_path force_rescan, InvalidPath folder_path]\<rparr>)
           else
             let s0 = scan_setup e st1 db folder_path force_rescan;
                 to_scan = files_to_scan force_rescan (already_indexed e db force_rescan)
                             (all_files_in_folder e folder_path);
                 (s, raised) =
                   scan_loop e progress_callback (total_files (st_status s0)) to_scan s0;
                 st4 = finish (st_status s)
             in s\<lparr>st_status := st4, st_trace := st_trace s @ [st4],
                  st_log := st_log s @ (if raised then [UnknownError] else [])\<rparr>)"

section \<open>Auxiliary notions\<close>

text \<open>
  An entry of the grouping dict that stems from the join rows \<open>R\<close>: it is stored under
  its own key, has at least one tag, and its path and flag are those of a row of \<open>R\<close>
  with that key.
\<close>

definition item_from :: "join_row set \<Rightarrow> int \<times> image_item \<Rightarrow> bool" where
  "item_from R p =
     (item_image_id (snd p) = fst p \<and> item_tags (snd p) \<noteq> [] \<and>
      (\<exists>row \<in> R. j_image_id row = fst p \<and> item_file_path (snd p) = j_file_path row \<and>
                   item_is_favorite (snd p) = (j_is_favorite row \<noteq> 0)))"

text \<open>
  A scan state whose visible processed counts never decreased so far and do not exceed
  the current count.
\<close>

definition rising :: "scan_state \<Rightarrow> bool" where
  "rising s =
     (sorted (map files_processed (st_trace s)) \<and>
      (\<forall>x \<in> set (st_trace s). files_processed x \<le> files_processed (st_status s)))"

section \<open>Example data\<close>

text \<open>A database with one indexed image that carries one tag.\<close>

definition db_one :: database where
  "db_one =
     \<lparr>images = [\<lparr>image_id = 1, file_path = ''a.jpg'', date_scanned = ''t0'',
                 is_favorite = 0\<rparr>],
      tags_tbl = [\<lparr>t_tag_id = 1, t_image_id = 1, t_tag_name = ''cat'', t_score = 0.9\<rparr>],
      seq_images = 1, seq_tags = 1\<rparr>"

text \<open>The same after an image without tags was saved at \<open>b.jpg\<close>.\<close>

definition db_two :: database where
  "db_two =
     \<lparr>images = [\<lparr>image_id = 1, file_path = ''a.jpg'', date_scanned = ''t0'',
                 is_favorite = 0\<rparr>,
                \<lparr>image_id = 2, file_path = ''b.jpg'', date_scanned = ''t1'',
                 is_favorite = 0\<rparr>],
      tags_tbl = [\<lparr>t_tag_id = 1, t_image_id = 1, t_tag_name = ''cat'', t_score = 0.9\<rparr>],
      seq_images = 2, seq_tags = 1\<rparr>"

text \<open>A database whose only image has no tag: an empty tag list was saved for it.\<close>

definition db_untagged :: database where
  "db_untagged =
     \<lparr>images = [\<lparr>image_id = 1, file_path = ''b.jpg'', date_scanned = ''t0'',
                 is_favorite = 0\<rparr>],
      tags_tbl = [], seq_images = 1, seq_tags = 0\<rparr>"

text \<open>
  A folder \<open>pics\<close> with two supported files and one other file, a tagger that finds one
  tag, a store that never fails; and a database that indexes one file of \<open>pics\<close> and
  two files of another folder.
\<close>

definition ex_env :: env where
  "ex_env =
     \<lparr>os_isdir = (\<lambda>p. p = ''pics''),
      os_walk = (\<lambda>p. if p = ''pics'' then [(''pics'', [''a.jpg'', ''c.PNG'', ''notes.txt''])]
                      else []),
      os_join = (\<lambda>root file. root @ ''/'' @ file),
      os_normpath = (\<lambda>p. p),
      process_image = (\<lambda>p. Some [\<lparr>tag_name = ''dog'', score = 0.8\<rparr>]),
      clock = (\<lambda>p. ''t1''),
      save_error = (\<lambda>p. False),
      paths_error = False,
      percent = (\<lambda>p t. (p * 100) div t)\<rparr>"

definition db_scan :: database where
  "db_scan =
     \<lparr>images = [\<lparr>image_id = 1, file_path = ''pics/a.jpg'', date_scanned = ''t0'',
                 is_favorite = 0\<rparr>,
                \<lparr>image_id = 2, file_path = ''other/x.jpg'', date_scanned = ''t0'',
                 is_favorite = 0\<rparr>,
                \<lparr>image_id = 3, file_path = ''other/y.jpg'', date_scanned = ''t0'',
                 is_favorite = 0\<rparr>],
      tags_tbl = [\<lparr>t_tag_id = 1, t_image_id = 1, t_tag_name = ''cat'', t_score = 0.9\<rparr>,
                  \<lparr>t_tag_id = 2, t_image_id = 2, t_tag_name = ''cat'', t_score = 0.7\<rparr>,
                  \<lparr>t_tag_id = 3, t_image_id = 3, t_tag_name = ''hat'', t_score = 0.6\<rparr>],
      seq_images = 3, seq_tags = 3\<rparr>"

text \<open>The status a finished scan of three files leaves behind.\<close>

definition status_done :: status where
  "status_done = \<lparr>is_scanning = False, total_files = 3, files_processed = 3,
                   progress_percent = 100, folder = ''pics''\<rparr>"

section \<open>Properties of the index store\<close>

subsection \<open>Saving tags\<close>

lemma tag_of_row_enumerate:
  "map ((\<lambda>t. \<lparr>tag_name = t_tag_name t, score = t_score t\<rparr>) \<circ>
        (\<lambda>(i, tg). \<lparr>t_tag_id = f i, t_image_id = iid,
                         t_tag_name = tag_name tg, t_score = score tg\<rparr>)) (enumerate n T) = T"
  by (induction T arbitrary: n) auto

lemma filter_new_rows:
  "filter (\<lambda>t. t_image_id t = iid)
       (map (\<lambda>(i, tg). \<lparr>t_tag_id = f i, t_image_id = iid,
                         t_tag_name = tag_name tg, t_score = score tg\<rparr>) xs) =
   map (\<lambda>(i, tg). \<lparr>t_tag_id = f i, t_image_id = iid,
                         t_tag_name = tag_name tg, t_score = score tg\<rparr>) xs"
  by (induction xs) auto

text \<open>After the upsert the SELECT finds a row: the TypeError branch is never taken.\<close>

lemma select_after_upsert:
  "\<exists>iid. select_image_id (upsert_image db p now) p = Some iid"
proof (cases "\<exists>row \<in> set (images db). file_path row = p")
  case True
  then obtain row where "row \<in> set (images db)" "file_path row = p" by blast
  then have "find (\<lambda>r. file_path r = p)
        (map (\<lambda>row. if file_path row = p then row\<lparr>date_scanned := now\<rparr> else row)
             (images db)) \<noteq> None"
    by (auto simp: find_None_iff)
  with True show ?thesis by (auto simp: select_image_id_def upsert_image_def)
next
  case False
  then have "find (\<lambda>r. file_path r = p)
        (images db @ [\<lparr>image_id = seq_images db + 1, file_path = p,
                       date_scanned = now, is_favorite = 0\<rparr>]) \<noteq> None"
    by (auto simp: find_None_iff)
  with False show ?thesis by (auto simp: select_image_id_def upsert_image_def)
qed

lemma stored_tags_after_save:
  assumes "select_image_id db1 p = Some iid"
  shows "stored_tags (if T \<noteq> [] then insert_tags (delete_tags db1 iid) iid T
                      else delete_tags db1 iid) p = T"
proof -
  have sel: "select_image_id (insert_tags (delete_tags db1 iid) iid T) p = Some iid"
       "select_image_id (delete_tags db1 iid) p = Some iid"
    using assms by (simp_all add: select_image_id_def insert_tags_def delete_tags_def)
  show ?thesis
  proof (cases "T = []")
    case True
    then show ?thesis using sel by (simp add: stored_tags_def delete_tags_def)
  next
    case False
    have "stored_tags (insert_tags (delete_tags db1 iid) iid T) p = T"
      using sel(1)
      by (simp add: stored_tags_def insert_tags_def delete_tags_def filter_new_rows
                    tag_of_row_enumerate)
    with False show ?thesis by simp
  qed
qed

text \<open>
  Claim C2. A call of \<open>save_tags_to_db\<close> always returns, and it reports success exactly
  when no statement of its transaction raised. After a success the tag assignments
  stored for the path are exactly the list passed in: whatever was stored before is
  gone. After a failure the database is the one before the call, so the assignments of
  the path are unchanged.
\<close>

theorem save_tags_replaces_or_rolls_back:
  "\<exists>db'. save_tags_to_db normpath now sqlite_error db path T = Some (db', \<not> sqlite_error) \<and>
     (\<not> sqlite_error \<longrightarrow> stored_tags db' (normpath path) = T) \<and>
     (sqlite_error \<longrightarrow> db' = db \<and>
        stored_tags db' (normpath path) = stored_tags db (normpath path))"
proof (cases sqlite_error)
  case True
  then show ?thesis by (simp add: save_tags_to_db_def)
next
  case False
  obtain iid where
    sel: "select_image_id (upsert_image db (normpath path) now) (normpath path) = Some iid"
    using select_after_upsert by blast
  show ?thesis
    using False sel stored_tags_after_save[OF sel, of T]
    by (simp add: save_tags_to_db_def Let_def)
qed

theorem save_tags_witness:
  "stored_tags db_one ''a.jpg'' = [\<lparr>tag_name = ''cat'', score = 0.9\<rparr>] \<and>
   (\<exists>db'. save_tags_to_db (\<lambda>p. p) ''t1'' False db_one ''a.jpg''
              [\<lparr>tag_name = ''dog'', score = 0.5\<rparr>] = Some (db', True) \<and>
          stored_tags db' ''a.jpg'' = [\<lparr>tag_name = ''dog'', score = 0.5\<rparr>]) \<and>
   save_tags_to_db (\<lambda>p. p) ''t1'' True db_one ''a.jpg''
     [\<lparr>tag_name = ''dog'', score = 0.5\<rparr>] = Some (db_one, False)"
  using save_tags_replaces_or_rolls_back[of "\<lambda>p. p" "''t1''" False db_one "''a.jpg''"
          "[\<lparr>tag_name = ''dog'', score = 0.5\<rparr>]"]
        save_tags_replaces_or_rolls_back[of "\<lambda>p. p" "''t1''" True db_one "''a.jpg''"
          "[\<lparr>tag_name = ''dog'', score = 0.5\<rparr>]"]
  by (simp add: db_one_def stored_tags_def select_image_id_def)

subsection \<open>The schema invariant\<close>

lemma db_ok_empty: "db_ok empty_db"
  by (simp add: db_ok_def empty_db_def)

lemma touch_comp:
  "image_id \<circ> (\<lambda>row. if file_path row = p then row\<lparr>date_scanned := now\<rparr> else row)
     = image_id"
  "file_path \<circ> (\<lambda>row. if file_path row = p then row\<lparr>date_scanned := now\<rparr> else row)
     = file_path"
  by (auto simp: fun_eq_iff)

lemma db_ok_upsert: "db_ok db \<Longrightarrow> db_ok (upsert_image db p now)"
  unfolding db_ok_def upsert_image_def
  by (auto simp: touch_comp)

lemma db_ok_tags:
  "db_ok db \<Longrightarrow> db_ok (delete_tags db iid)"
  "db_ok db \<Longrightarrow> db_ok (insert_tags db iid T)"
  by (simp_all add: db_ok_def delete_tags_def insert_tags_def)

lemma db_ok_save:
  "db_ok db \<Longrightarrow> save_tags_to_db normpath now sqlite_error db path T = Some (db', ok)
     \<Longrightarrow> db_ok db'"
  by (auto simp: save_tags_to_db_def Let_def db_ok_upsert db_ok_tags
           split: if_splits option.splits)

subsection \<open>Listing all images\<close>

lemma in_join_rows_D:
  "row \<in> set (join_rows db) \<Longrightarrow>
     \<exists>t \<in> set (tags_tbl db). \<exists>im \<in> set (images db). t_image_id t = image_id im \<and>
        row = \<lparr>j_image_id = t_image_id t, j_file_path = file_path im,
               j_is_favorite = is_favorite im, j_tag_name = t_tag_name t,
               j_score = t_score t\<rparr>"
  by (fastforce simp: join_rows_def)

lemma in_join_rows_I:
  "t \<in> set (tags_tbl db) \<Longrightarrow> im \<in> set (images db) \<Longrightarrow> t_image_id t = image_id im \<Longrightarrow>
     \<lparr>j_image_id = t_image_id t, j_file_path = file_path im,
      j_is_favorite = is_favorite im, j_tag_name = t_tag_name t,
      j_score = t_score t\<rparr> \<in> set (join_rows db)"
  by (auto simp: join_rows_def)

lemma set_ordered_rows: "set (ordered_rows db) = set (join_rows db)"
  by (simp add: ordered_rows_def)

lemma add_row_alt:
  "add_row acc row =
     map (add_tag row)
       (if j_image_id row \<notin> fst ` set acc
        then acc @ [(j_image_id row,
                \<lparr>item_image_id = j_image_id row, item_file_path = j_file_path row,
                 item_is_favorite = (j_is_favorite row \<noteq> 0), item_tags = []\<rparr>)]
        else acc)"
  by (simp add: add_row_def Let_def)

lemma keys_add_row: "fst ` set (add_row acc row) = insert (j_image_id row) (fst ` set acc)"
  by (force simp: add_row_alt add_tag_def image_iff split: if_splits prod.splits)

lemma keys_group_rows:
  "fst ` set (group_rows rows acc) = fst ` set acc \<union> j_image_id ` set rows"
  by (induction rows arbitrary: acc) (auto simp: keys_add_row)

lemma item_from_add_tag: "item_from R p \<Longrightarrow> item_from R (add_tag row p)"
  by (cases p) (auto simp: item_from_def add_tag_def)

lemma item_from_new:
  "row \<in> R \<Longrightarrow> item_from R (add_tag row (j_image_id row,
                \<lparr>item_image_id = j_image_id row, item_file_path = j_file_path row,
                 item_is_favorite = (j_is_favorite row \<noteq> 0), item_tags = []\<rparr>))"
  by (auto simp: item_from_def add_tag_def)

lemma item_from_add_row:
  assumes "\<forall>p \<in> set acc. item_from R p" "row \<in> R"
  shows "\<forall>p \<in> set (add_row acc row). item_from R p"
  using assms by (auto simp: add_row_alt item_from_add_tag item_from_new)

lemma item_from_group_rows:
  assumes "\<forall>p \<in> set acc. item_from R p" "set rows \<subseteq> R"
  shows "\<forall>p \<in> set (group_rows rows acc). item_from R p"
  using assms
proof (induction rows arbitrary: acc)
  case Nil
  then show ?case by simp
next
  case (Cons row rows)
  have "\<forall>p \<in> set (add_row acc row). item_from R p"
    using Cons.prems by (intro item_from_add_row) auto
  then show ?case using Cons by simp
qed

text \<open>Every listed image has a tag, and is the join of a tag row with an image row.\<close>

lemma listed_item:
  assumes "item \<in> set (get_all_indexed_images sqlite_error db)"
  shows "item_tags item \<noteq> [] \<and>
         (\<exists>t \<in> set (tags_tbl db). \<exists>im \<in> set (images db). t_image_id t = image_id im \<and>
            item_image_id item = image_id im \<and> item_file_path item = file_path im \<and>
            item_is_favorite item = (is_favorite im \<noteq> 0))"
proof -
  from assms obtain k where mem: "(k, item) \<in> set (group_rows (ordered_rows db) [])"
    by (auto simp: get_all_indexed_images_def split: if_splits)
  have "\<forall>p \<in> set (group_rows (ordered_rows db) []). item_from (set (join_rows db)) p"
    by (rule item_from_group_rows) (simp_all add: set_ordered_rows)
  with mem have "item_from (set (join_rows db)) (k, item)" by blast
  then obtain row where row: "row \<in> set (join_rows db)" "j_image_id row = k"
      "item_image_id item = k" "item_tags item \<noteq> []"
      "item_file_path item = j_file_path row"
      "item_is_favorite item = (j_is_favorite row \<noteq> 0)"
    by (auto simp: item_from_def)
  from in_join_rows_D[OF row(1)] row show ?thesis by fastforce
qed

text \<open>An image row that some tag row refers to is listed.\<close>

lemma listed_key:
  assumes "t \<in> set (tags_tbl db)" "im \<in> set (images db)" "t_image_id t = image_id im"
  shows "\<exists>item \<in> set (get_all_indexed_images False db). item_image_id item = image_id im"
proof -
  have "j_image_id \<lparr>j_image_id = t_image_id t, j_file_path = file_path im,
      j_is_favorite = is_favorite im, j_tag_name = t_tag_name t,
      j_score = t_score t\<rparr> \<in> j_image_id ` set (join_rows db)"
    using in_join_rows_I[OF assms] by (rule imageI)
  then have "image_id im \<in> j_image_id ` set (ordered_rows db)"
    using assms(3) by (simp add: set_ordered_rows)
  then have "image_id im \<in> fst ` set (group_rows (ordered_rows db) [])"
    by (simp add: keys_group_rows)
  then obtain item where mem: "(image_id im, item) \<in> set (group_rows (ordered_rows db) [])"
    by force
  have "\<forall>p \<in> set (group_rows (ordered_rows db) []). item_from (set (join_rows db)) p"
    by (rule item_from_group_rows) (simp_all add: set_ordered_rows)
  with mem have "item_image_id item = image_id im" by (force simp: item_from_def)
  with mem show ?thesis by (force simp: get_all_indexed_images_def)
qed

section \<open>Properties of the retrieval\<close>

lemma filter_loop_raw: "snd (filter_loop f items) = filter (\<lambda>it. f it \<noteq> None) items"
  by (induction items) (auto split: prod.splits option.splits)

lemma filter_loop_out:
  "fst (filter_loop f items) =
     map (\<lambda>it. (item_file_path it, the (f it))) (filter (\<lambda>it. f it \<noteq> None) items)"
  by (induction items) (auto split: prod.splits option.splits)

lemma run_filter_raw:
  "filtered_raw_results (run_filter tx u cn en fn cp parts all lo hi fav) =
     (if u \<and> cn = {} \<and> en = [] \<and> fn = [] \<and> \<not> fav then []
      else filter (\<lambda>it. filter_item tx u cn en fn lo hi fav it \<noteq> None) all)"
  by (simp add: run_filter_def Let_def case_prod_beta filter_loop_raw)

lemma run_filter_out:
  "output_data (run_filter tx u cn en fn cp parts all lo hi fav) =
     (if u \<and> cn = {} \<and> en = [] \<and> fn = [] \<and> \<not> fav then []
      else map (\<lambda>it. (item_file_path it, the (filter_item tx u cn en fn lo hi fav it)))
             (filter (\<lambda>it. filter_item tx u cn en fn lo hi fav it \<noteq> None) all))"
  by (simp add: run_filter_def Let_def case_prod_beta filter_loop_out)

lemma search_raw_subset:
  "set (filtered_raw_results (search_images_wrapper tx dm db te ie a b c d lo hi fav))
     \<subseteq> set (get_all_indexed_images ie db)"
  by (simp add: search_images_wrapper_def Let_def run_filter_raw)

lemma search_out_paths:
  "fst ` set (output_data (search_images_wrapper tx dm db te ie a b c d lo hi fav))
     \<subseteq> item_file_path ` set (get_all_indexed_images ie db)"
  by (auto simp: search_images_wrapper_def Let_def run_filter_out)

section \<open>Images without tags\<close>

lemmas listing_simps = get_all_indexed_images_def ordered_rows_def join_rows_def
  add_row_def add_tag_def Let_def

lemma select_image_id_SomeD:
  "select_image_id db p = Some iid \<Longrightarrow>
     \<exists>r \<in> set (images db). file_path r = p \<and> image_id r = iid"
  by (auto simp: select_image_id_def find_Some_iff)

lemma unique_path:
  assumes "db_ok db" "r \<in> set (images db)" "r' \<in> set (images db)"
    "file_path r = file_path r'"
  shows "r = r'"
proof -
  have "inj_on file_path (set (images db))"
    using assms(1) by (simp add: db_ok_def distinct_map)
  then show ?thesis using assms(2-4) by (meson inj_onD)
qed

lemma unique_id:
  assumes "db_ok db" "r \<in> set (images db)" "r' \<in> set (images db)"
    "image_id r = image_id r'"
  shows "r = r'"
proof -
  have "inj_on image_id (set (images db))"
    using assms(1) by (simp add: db_ok_def distinct_map)
  then show ?thesis using assms(2-4) by (meson inj_onD)
qed

text \<open>
  Claim C10. Saving an empty tag list succeeds (when the store raises no error) and
  creates or refreshes the image record: the path is then among the indexed paths
  (for a path that normalisation leaves fixed once normalised, as
  \<^verbatim>\<open>os.path.normpath\<close> does). Its stored tag list is empty, and because the
  listing joins images to their tags, no listed image has that path, and so no search,
  whatever its criteria, returns it.
\<close>

theorem empty_save_indexed_but_never_listed:
  assumes ok: "db_ok db" and idem: "normpath (normpath path) = normpath path"
  shows "\<exists>db'. save_tags_to_db normpath now False db path [] = Some (db', True) \<and>
           normpath path \<in> get_all_indexed_file_paths normpath False db' \<and>
           stored_tags db' (normpath path) = [] \<and>
           (\<forall>item \<in> set (get_all_indexed_images images_error db').
               item_file_path item \<noteq> normpath path) \<and>
           (\<forall>tx dm te a b c d lo hi fav.
               normpath path \<notin> fst ` set (output_data
                  (search_images_wrapper tx dm db' te images_error a b c d lo hi fav)))"
proof -
  define np where "np = normpath path"
  define db1 where "db1 = upsert_image db np now"
  obtain iid where sel: "select_image_id db1 np = Some iid"
    unfolding db1_def using select_after_upsert by blast
  define db' where "db' = delete_tags db1 iid"
  have save: "save_tags_to_db normpath now False db path [] = Some (db', True)"
    using sel by (simp add: save_tags_to_db_def Let_def db'_def db1_def np_def)
  have ok': "db_ok db'"
    using db_ok_save[OF ok save] .
  have imgs: "images db' = images db1" and
       tgs: "tags_tbl db' = filter (\<lambda>t. t_image_id t \<noteq> iid) (tags_tbl db1)"
    by (simp_all add: db'_def delete_tags_def)
  from select_image_id_SomeD[OF sel] obtain r where
    r: "r \<in> set (images db')" "file_path r = np" "image_id r = iid"
    using imgs by auto
  have "normpath (file_path r) \<in> (\<lambda>row. normpath (file_path row)) ` set (images db')"
    using r(1) by (rule imageI)
  then have indexed: "np \<in> get_all_indexed_file_paths normpath False db'"
    using r(2) idem by (simp add: get_all_indexed_file_paths_def np_def)
  have stored: "stored_tags db' np = []"
    using stored_tags_after_save[OF sel, of "[]"] by (simp add: db'_def)
  have listed: "item_file_path item \<noteq> np"
    if "item \<in> set (get_all_indexed_images images_error db')" for item
  proof
    assume eq: "item_file_path item = np"
    from listed_item[OF that] obtain t im where
      tim: "t \<in> set (tags_tbl db')" "im \<in> set (images db')" "t_image_id t = image_id im"
           "item_file_path item = file_path im"
      by blast
    have "file_path im = file_path r" using tim(4) eq r(2) by simp
    then have "im = r" using unique_path[OF ok' tim(2) r(1)] by simp
    then have "t_image_id t = iid" using tim(3) r(3) by simp
    then show False using tim(1) tgs by simp
  qed
  have searched: "np \<notin> fst ` set (output_data
                  (search_images_wrapper tx dm db' te images_error a b c d lo hi fav))"
    for tx dm te a b c d lo hi fav
  proof
    assume "np \<in> fst ` set (output_data
                  (search_images_wrapper tx dm db' te images_error a b c d lo hi fav))"
    then have "np \<in> item_file_path ` set (get_all_indexed_images images_error db')"
      using search_out_paths[of tx dm db' te images_error a b c d lo hi fav] by (rule rev_subsetD)
    then show False using listed by (auto simp: image_iff)
  qed
  have "save_tags_to_db normpath now False db path [] = Some (db', True) \<and>
           normpath path \<in> get_all_indexed_file_paths normpath False db' \<and>
           stored_tags db' (normpath path) = [] \<and>
           (\<forall>item \<in> set (get_all_indexed_images images_error db').
               item_file_path item \<noteq> normpath path) \<and>
           (\<forall>tx dm te a b c d lo hi fav.
               normpath path \<notin> fst ` set (output_data
                  (search_images_wrapper tx dm db' te images_error a b c d lo hi fav)))"
    unfolding np_def[symmetric]
    using save[unfolded np_def[symmetric]] indexed stored listed searched
    by (intro conjI ballI allI)
  then show ?thesis by (rule exI)
qed

theorem empty_save_witness:
  "db_ok db_one \<and>
   save_tags_to_db (\<lambda>p. p) ''t1'' False db_one ''b.jpg'' [] = Some (db_two, True) \<and>
   ''b.jpg'' \<in> get_all_indexed_file_paths (\<lambda>p. p) False db_two \<and>
   map item_file_path (get_all_indexed_images False db_two) = [''a.jpg'']"
proof -
  have h: "db_ok db_one" by (simp add: db_ok_def db_one_def)
  show ?thesis
    using h empty_save_indexed_but_never_listed[OF h, of "\<lambda>p. p" "''b.jpg''" "''t1''" False]
    by (simp add: db_one_def db_two_def save_tags_to_db_def upsert_image_def
        select_image_id_def delete_tags_def get_all_indexed_file_paths_def listing_simps)
qed

section \<open>Toggling the favorite flag\<close>

lemma find_flipped:
  assumes "distinct (map image_id xs)" "row \<in> set xs"
  shows "find (\<lambda>r. image_id r = image_id row)
           (map (\<lambda>r. if image_id r = image_id row
                      then r\<lparr>is_favorite := 1 - is_favorite r\<rparr> else r) xs)
         = Some (row\<lparr>is_favorite := 1 - is_favorite row\<rparr>)"
  using assms by (induction xs) (auto simp: image_iff)

lemma toggle_known:
  assumes "db_ok db" "row \<in> set (images db)"
  shows "toggle_favorite_status False db (image_id row) =
           (db\<lparr>images := map (\<lambda>r. if image_id r = image_id row
                      then r\<lparr>is_favorite := 1 - is_favorite r\<rparr> else r) (images db)\<rparr>,
            is_favorite row = 0)"
proof -
  have d: "distinct (map image_id (images db))" using assms(1) by (simp add: db_ok_def)
  have "is_favorite row = 0 \<or> is_favorite row = 1"
    using assms by (simp add: db_ok_def)
  then show ?thesis
    using find_flipped[OF d assms(2)]
    by (auto simp: toggle_favorite_status_def Let_def)
qed

lemma toggle_unknown:
  assumes "iid \<notin> image_id ` set (images db)"
  shows "toggle_favorite_status sqlite_error db iid = (db, False)"
proof -
  have m: "map (\<lambda>r. if image_id r = iid then r\<lparr>is_favorite := 1 - is_favorite r\<rparr> else r)
             (images db) = images db"
    using assms by (intro map_idI) auto
  have f: "find (\<lambda>r. image_id r = iid) (images db) = None"
    using assms by (auto simp: find_None_iff)
  show ?thesis by (simp add: toggle_favorite_status_def Let_def m f)
qed

lemma toggle_error: "toggle_favorite_status True db iid = (db, False)"
  by (simp add: toggle_favorite_status_def)

text \<open>What the listing shows of an image after its flag was flipped.\<close>

lemma listed_after_toggle:
  assumes ok: "db_ok db" and row: "row \<in> set (images db)"
    and db': "db' = db\<lparr>images := map (\<lambda>r. if image_id r = image_id row
                      then r\<lparr>is_favorite := 1 - is_favorite r\<rparr> else r) (images db)\<rparr>"
    and item: "item \<in> set (get_all_indexed_images sqlite_error db')"
              "item_image_id item = image_id row"
  shows "item_is_favorite item = (is_favorite row = 0)"
proof -
  from listed_item[OF item(1)] obtain im where
    im: "im \<in> set (images db')" "item_image_id item = image_id im"
        "item_is_favorite item = (is_favorite im \<noteq> 0)"
    by blast
  from im(1) db' obtain r0 where
    r0: "r0 \<in> set (images db)"
        "im = (if image_id r0 = image_id row then r0\<lparr>is_favorite := 1 - is_favorite r0\<rparr> else r0)"
    by auto
  have "image_id im = image_id r0" using r0(2) by (simp split: if_splits)
  then have "image_id r0 = image_id row" using im(2) item(2) by simp
  then have "r0 = row" using unique_id[OF ok r0(1) row] by simp
  then have "is_favorite im = 1 - is_favorite row" using r0(2) by simp
  moreover have "is_favorite row = 0 \<or> is_favorite row = 1"
    using ok row by (simp add: db_ok_def)
  ultimately show ?thesis using im(3) by auto
qed

lemma listed_exists_after_toggle:
  assumes row: "row \<in> set (images db)"
    and t: "t \<in> set (tags_tbl db)" "t_image_id t = image_id row"
    and db': "db' = db\<lparr>images := map (\<lambda>r. if image_id r = image_id row
                      then r\<lparr>is_favorite := 1 - is_favorite r\<rparr> else r) (images db)\<rparr>"
  shows "\<exists>item \<in> set (get_all_indexed_images False db'). item_image_id item = image_id row"
proof -
  let ?row' = "row\<lparr>is_favorite := 1 - is_favorite row\<rparr>"
  have r': "?row' \<in> set (images db')"
    unfolding db' using row by (auto simp: image_iff intro!: bexI[of _ row])
  have t': "t \<in> set (tags_tbl db')" using t(1) db' by simp
  have "t_image_id t = image_id ?row'" using t(2) by simp
  from listed_key[OF t' r' this] show ?thesis by simp
qed

text \<open>
  Claim C9, as the code has it. In a database that satisfies the schema invariant,
  toggling the key of a stored image (with no error raised by the store) flips the flag
  of exactly that row, leaves every other row and all tags alone, and returns the new
  state, which is the negation of the old one. Every entry that the next listing shows
  for that key carries the new state, and there is such an entry whenever the image has
  at least one tag row. Toggling a key that is not stored returns False and leaves the
  database as it is, with or without an error.
\<close>

theorem toggle_favorite_flips:
  assumes ok: "db_ok db"
  shows "(\<forall>row \<in> set (images db).
            (\<exists>db'. toggle_favorite_status False db (image_id row) = (db', is_favorite row = 0) \<and>
               images db' = map (\<lambda>r. if image_id r = image_id row
                                      then r\<lparr>is_favorite := 1 - is_favorite r\<rparr> else r)
                                (images db) \<and>
               tags_tbl db' = tags_tbl db \<and>
               (is_favorite row = 0) = (\<not> (is_favorite row \<noteq> 0)) \<and>
               (\<forall>item \<in> set (get_all_indexed_images False db').
                   item_image_id item = image_id row \<longrightarrow>
                   item_is_favorite item = (is_favorite row = 0)) \<and>
               ((\<exists>t \<in> set (tags_tbl db). t_image_id t = image_id row) \<longrightarrow>
                  (\<exists>item \<in> set (get_all_indexed_images False db').
                     item_image_id item = image_id row \<and>
                     item_is_favorite item = (is_favorite row = 0))))) \<and>
         (iid \<notin> image_id ` set (images db) \<longrightarrow>
            toggle_favorite_status sqlite_error db iid = (db, False))"
proof (intro conjI ballI impI)
  fix row assume row: "row \<in> set (images db)"
  define db' where "db' = db\<lparr>images := map (\<lambda>r. if image_id r = image_id row
                      then r\<lparr>is_favorite := 1 - is_favorite r\<rparr> else r) (images db)\<rparr>"
  have tog: "toggle_favorite_status False db (image_id row) = (db', is_favorite row = 0)"
    using toggle_known[OF ok row] by (simp add: db'_def)
  have shown: "item_is_favorite item = (is_favorite row = 0)"
    if "item \<in> set (get_all_indexed_images False db')" "item_image_id item = image_id row"
    for item
    using listed_after_toggle[OF ok row db'_def that] .
  have ex: "\<exists>item \<in> set (get_all_indexed_images False db').
              item_image_id item = image_id row \<and> item_is_favorite item = (is_favorite row = 0)"
    if "\<exists>t \<in> set (tags_tbl db). t_image_id t = image_id row"
  proof -
    from that obtain t where "t \<in> set (tags_tbl db)" "t_image_id t = image_id row" by blast
    from listed_exists_after_toggle[OF row this db'_def] obtain item where
      "item \<in> set (get_all_indexed_images False db')" "item_image_id item = image_id row"
      by blast
    with shown show ?thesis by blast
  qed
  have "toggle_favorite_status False db (image_id row) = (db', is_favorite row = 0) \<and>
               images db' = map (\<lambda>r. if image_id r = image_id row
                                      then r\<lparr>is_favorite := 1 - is_favorite r\<rparr> else r)
                                (images db) \<and>
               tags_tbl db' = tags_tbl db \<and>
               (is_favorite row = 0) = (\<not> (is_favorite row \<noteq> 0)) \<and>
               (\<forall>item \<in> set (get_all_indexed_images False db').
                   item_image_id item = image_id row \<longrightarrow>
                   item_is_favorite item = (is_favorite row = 0)) \<and>
               ((\<exists>t \<in> set (tags_tbl db). t_image_id t = image_id row) \<longrightarrow>
                  (\<exists>item \<in> set (get_all_indexed_images False db').
                     item_image_id item = image_id row \<and>
                     item_is_favorite item = (is_favorite row = 0)))"
    using tog shown ex by (simp add: db'_def)
  then show "\<exists>db'. toggle_favorite_status False db (image_id row) = (db', is_favorite row = 0) \<and>
               images db' = map (\<lambda>r. if image_id r = image_id row
                                      then r\<lparr>is_favorite := 1 - is_favorite r\<rparr> else r)
                                (images db) \<and>
               tags_tbl db' = tags_tbl db \<and>
               (is_favorite row = 0) = (\<not> (is_favorite row \<noteq> 0)) \<and>
               (\<forall>item \<in> set (get_all_indexed_images False db').
                   item_image_id item = image_id row \<longrightarrow>
                   item_is_favorite item = (is_favorite row = 0)) \<and>
               ((\<exists>t \<in> set (tags_tbl db). t_image_id t = image_id row) \<longrightarrow>
                  (\<exists>item \<in> set (get_all_indexed_images False db').
                     item_image_id item = image_id row \<and>
                     item_is_favorite item = (is_favorite row = 0)))"
    by (rule exI)
next
  assume "iid \<notin> image_id ` set (images db)"
  then show "toggle_favorite_status sqlite_error db iid = (db, False)"
    by (rule toggle_unknown)
qed

theorem toggle_favorite_witness:
  "db_ok db_one \<and>
   toggle_favorite_status False db_one 1 =
     (db_one\<lparr>images := [\<lparr>image_id = 1, file_path = ''a.jpg'', date_scanned = ''t0'',
                           is_favorite = 1\<rparr>]\<rparr>, True) \<and>
   map item_is_favorite
     (get_all_indexed_images False (fst (toggle_favorite_status False db_one 1))) = [True] \<and>
   toggle_favorite_status False db_one 5 = (db_one, False)"
proof -
  have h: "db_ok db_one" by (simp add: db_ok_def db_one_def)
  show ?thesis
    using h toggle_favorite_flips[OF h, of 5 False]
    by (simp add: db_one_def toggle_favorite_status_def listing_simps)
qed

text \<open>
  Claim C9 as stated fails for a stored image without tags. Saving an empty tag list
  for \<open>b.jpg\<close> in the empty database stores image 1; toggling it returns True, yet the
  listing after the toggle is empty, as it was before: the change is not visible there.
\<close>

theorem toggle_untagged_not_listed:
  "save_tags_to_db (\<lambda>p. p) ''t0'' False empty_db ''b.jpg'' [] = Some (db_untagged, True) \<and>
   db_ok db_untagged \<and> 1 \<in> image_id ` set (images db_untagged) \<and>
   snd (toggle_favorite_status False db_untagged 1) = True \<and>
   get_all_indexed_images False (fst (toggle_favorite_status False db_untagged 1)) = [] \<and>
   get_all_indexed_images False db_untagged = []"
  by (simp add: db_untagged_def empty_db_def db_ok_def save_tags_to_db_def upsert_image_def
        select_image_id_def delete_tags_def toggle_favorite_status_def listing_simps)

section \<open>Properties of the tag dictionary\<close>

lemma map_of_replace:
  "map_of (map (\<lambda>(k', v'). if k' = k then (k', v) else (k', v')) d) x =
     (if x = k \<and> k \<in> fst ` set d then Some v else map_of d x)"
proof (induction d)
  case Nil
  then show ?case by simp
next
  case (Cons p d)
  obtain a b where p: "p = (a, b)" by (cases p)
  show ?case using Cons by (cases "x = k"; cases "a = k") (simp_all add: p)
qed

lemma map_of_dict_set: "map_of (dict_set d k v) = (map_of d)(k \<mapsto> v)"
proof (cases "k \<in> fst ` set d")
  case True
  then show ?thesis by (auto simp: dict_set_def fun_eq_iff map_of_replace)
next
  case False
  then have "map_of d k = None" by (simp add: map_of_eq_None_iff)
  then have "map_of (d @ [(k, v)]) = (map_of d)(k \<mapsto> v)"
    by (auto simp: fun_eq_iff map_add_def split: option.splits)
  with False show ?thesis by (simp add: dict_set_def)
qed

lemma keys_dict_set: "fst ` set (dict_set d k v) = insert k (fst ` set d)"
  by (force simp: dict_set_def image_iff split: if_splits)

lemma load_loop_cn:
  "map_of (cn_to_en_tag (load_loop es d)) = map_of (cn_to_en_tag d) ++ map_of (rev es)"
  by (induction es d rule: load_loop.induct) (auto simp: map_of_dict_set fun_eq_iff map_add_def split: option.splits)

lemma load_loop_en:
  "map_of (en_to_cn_tag (load_loop es d)) =
     map_of (en_to_cn_tag d) ++ map_of (rev (map (\<lambda>(cn, en). (en, cn)) es))"
  by (induction es d rule: load_loop.induct) (auto simp: map_of_dict_set fun_eq_iff map_add_def split: option.splits)

lemma load_loop_keys:
  "fst ` set (cn_to_en_tag (load_loop es d)) = fst ` set (cn_to_en_tag d) \<union> fst ` set es"
  by (induction es d rule: load_loop.induct) (auto simp: keys_dict_set)

lemma loaded_cn: "map_of (cn_to_en_tag (load_dictionary tx (Some df))) = map_of (rev (clean_rows tx df))"
  by (simp add: load_dictionary_def Let_def load_loop_cn empty_dictionary_def)

lemma loaded_en:
  "map_of (en_to_cn_tag (load_dictionary tx (Some df))) =
     map_of (rev (map (\<lambda>(cn, en). (en, cn)) (clean_rows tx df)))"
  by (simp add: load_dictionary_def Let_def load_loop_en empty_dictionary_def)

lemma loaded_keys:
  "fst ` set (cn_to_en_tag (load_dictionary tx (Some df))) = fst ` set (clean_rows tx df)"
  by (simp add: load_dictionary_def Let_def load_loop_keys empty_dictionary_def)

lemma resolve_single:
  "get_search_tags_from_cn_list d [term] =
     (case map_of (cn_to_en_tag d) term of
        None \<Rightarrow> {} | Some tg' \<Rightarrow> if tg' \<noteq> [] then {tg'} else {})"
  by (simp add: get_search_tags_from_cn_list_def List.map_filter_simps split: option.splits)

text \<open>
  Claim C7, as the code has it, for whatever \<^verbatim>\<open>str.strip\<close> and \<^verbatim>\<open>str.lower\<close> do
  to the cells. Let (term, tag) be an entry of the cleaned rows, with the rows \<open>post\<close>
  loaded after it. Then the term is known. The reverse lookup of the
  tag gives the term of the last row with that tag, and resolving the term gives the
  tag of the last row with that term (nothing when that tag is the empty text): later
  rows overwrite earlier ones. So the round trip holds for the entry when no later row
  has its tag (reverse lookup), respectively when no later row has its term and the tag
  is not empty (resolution). Resolving one term never gives more than one tag.
\<close>

theorem resolver_round_trip_last_wins:
  assumes entries: "clean_rows tx df = pre @ (term, tg) # post"
  shows "is_cn_tag (load_dictionary tx (Some df)) term \<and>
         lookup_en_to_cn (load_dictionary tx (Some df)) tg =
           map_of (rev (map (\<lambda>(cn, en). (en, cn)) (clean_rows tx df))) tg \<and>
         get_search_tags_from_cn_list (load_dictionary tx (Some df)) [term] =
           (case map_of (rev (clean_rows tx df)) term of
              None \<Rightarrow> {} | Some tg' \<Rightarrow> if tg' \<noteq> [] then {tg'} else {}) \<and>
         (tg \<notin> snd ` set post \<longrightarrow> lookup_en_to_cn (load_dictionary tx (Some df)) tg = Some term) \<and>
         (term \<notin> fst ` set post \<and> tg \<noteq> [] \<longrightarrow>
            get_search_tags_from_cn_list (load_dictionary tx (Some df)) [term] = {tg}) \<and>
         card (get_search_tags_from_cn_list (load_dictionary tx (Some df)) [term]) \<le> 1"
proof -
  let ?d = "load_dictionary tx (Some df)"
  have known: "is_cn_tag ?d term"
    by (simp add: is_cn_tag_def loaded_keys entries)
  have en: "lookup_en_to_cn ?d tg = map_of (rev (map (\<lambda>(cn, en). (en, cn)) (clean_rows tx df))) tg"
    by (simp add: lookup_en_to_cn_def loaded_en)
  have cn: "get_search_tags_from_cn_list ?d [term] =
           (case map_of (rev (clean_rows tx df)) term of
              None \<Rightarrow> {} | Some tg' \<Rightarrow> if tg' \<noteq> [] then {tg'} else {})"
    by (simp add: resolve_single loaded_cn)
  have bwd: "lookup_en_to_cn ?d tg = Some term" if "tg \<notin> snd ` set post"
  proof -
    have "map_of (rev (map (\<lambda>(cn, en). (en, cn)) post)) tg = None"
      using that by (force simp: map_of_eq_None_iff image_iff)
    then show ?thesis
      by (simp add: en entries map_add_def)
  qed
  have fwd: "get_search_tags_from_cn_list ?d [term] = {tg}"
    if "term \<notin> fst ` set post \<and> tg \<noteq> []"
  proof -
    have "map_of (rev post) term = None"
      using that by (simp add: map_of_eq_None_iff)
    then have "map_of (rev (clean_rows tx df)) term = Some tg"
      by (simp add: entries map_add_def)
    then show ?thesis using that by (simp add: cn)
  qed
  have one: "card (get_search_tags_from_cn_list ?d [term]) \<le> 1"
    by (simp add: cn split: option.splits)
  show ?thesis using known en cn bwd fwd one by blast
qed

theorem resolver_witness:
  "clean_rows ascii_text [(''Cat'', ''mao ''), (''dog'', ''gou'')] = [] @ (''mao'', ''cat'') # [(''gou'', ''dog'')] \<and>
   is_cn_tag (load_dictionary ascii_text (Some [(''Cat'', ''mao ''), (''dog'', ''gou'')])) ''mao'' \<and>
   lookup_en_to_cn (load_dictionary ascii_text (Some [(''Cat'', ''mao ''), (''dog'', ''gou'')])) ''cat'' = Some ''mao'' \<and>
   get_search_tags_from_cn_list (load_dictionary ascii_text (Some [(''Cat'', ''mao ''), (''dog'', ''gou'')])) [''mao''] = {''cat''}"
proof -
  have h: "clean_rows ascii_text [(''Cat'', ''mao ''), (''dog'', ''gou'')] = [] @ (''mao'', ''cat'') # [(''gou'', ''dog'')]"
    by code_simp
  show ?thesis
    using h resolver_round_trip_last_wins[OF h] by simp
qed

text \<open>
  Claim C7 as stated fails on duplicate terms: with the rows (a, t) and (b, t), which
  the cleaning leaves as they are, the entry (t, a) is loaded, but resolving t gives b,
  the tag of the later row.
\<close>

theorem duplicate_term_counterexample:
  "clean_rows ascii_text [(''a'', ''t''), (''b'', ''t'')] = [(''t'', ''a''), (''t'', ''b'')] \<and>
   get_search_tags_from_cn_list (load_dictionary ascii_text (Some [(''a'', ''t''), (''b'', ''t'')])) [''t'']
     = {''b''} \<and>
   {''b''} \<noteq> {''a''}"
  by code_simp

section \<open>Searches without tag criteria\<close>

lemmas search_simps = search_images_wrapper_def run_filter_def filter_item_def
  cn_terms_to_search_def parse_terms_def get_search_tags_from_cn_list_def
  fuzzy_lookup_suggestions_def get_all_indexed_tags_def in_range_def
  ascii_text_def ascii_strip_def ascii_isspace_def ascii_lower_def
  empty_dictionary_def List.map_filter_simps


lemma run_filter_empty:
  "u \<Longrightarrow> cn = {} \<Longrightarrow> en = [] \<Longrightarrow> fn = [] \<Longrightarrow> \<not> fav \<Longrightarrow>
     run_filter tx u cn en fn cp parts all lo hi fav =
       \<lparr>output_data = [], final_message = NoTagsFound cp,
        filtered_raw_results = [], gallery_state = []\<rparr>"
  by (simp add: run_filter_def)

lemma run_filter_message:
  "\<not> (u \<and> cn = {} \<and> en = [] \<and> fn = [] \<and> \<not> fav) \<Longrightarrow>
     final_message (run_filter tx u cn en fn cp parts all lo hi fav) \<noteq> NoTagsFound x"
  by (auto simp: run_filter_def Let_def case_prod_beta)

lemma filter_item_show_all:
  "(\<exists>y. filter_item tx False {} [] [] lo hi False it = Some y) \<longleftrightarrow>
     (\<exists>t \<in> set (item_tags it). in_range lo hi t)"
  by (auto simp: filter_item_def Let_def filter_empty_conv)

lemma filter_item_plain:
  "(\<exists>y. filter_item tx True {} [] fn lo hi fav it = Some y) \<longleftrightarrow>
     (fav \<longrightarrow> item_is_favorite it) \<and>
     (fn \<noteq> [] \<longrightarrow> contains (str_lower tx (item_file_path it)) fn)"
  by (auto simp: filter_item_def Let_def)

lemma filter_item_five:
  "filter_item tx u {} [] fn lo hi fav it = Some t \<Longrightarrow> length (title_lines t) \<le> 5"
  by (auto simp: filter_item_def Let_def split: if_splits)

lemma no_input_terms:
  "get_search_tags_from_cn_list dm (cn_terms_to_search tx dm allowed [] []) = {}"
  "parse_terms tx [] = []"
  by (simp_all add: cn_terms_to_search_def get_search_tags_from_cn_list_def parse_terms_def
       List.map_filter_simps)

lemma title_lines_le5:
  assumes "cn = {}" "en = []"
  shows "\<forall>(p, t) \<in> set (output_data (run_filter tx u cn en fn cp parts all lo hi fav)).
           length (title_lines t) \<le> 5"
  using assms by (auto simp: run_filter_out dest: filter_item_five)

text \<open>
  Claim C5, for whatever \<^verbatim>\<open>str.strip\<close>, \<^verbatim>\<open>str.lower\<close> and \<^verbatim>\<open>str.split\<close> do.
  Take a search whose inputs, stripped and lower-cased as the code does, name something
  in the Chinese substring, the selected term or the English field, while the terms resolve to no
  tag, the English field parses to no token, and neither a file name nor the favorites
  flag is set. Its result is empty and carries the message \<open>NoTagsFound\<close>. A search
  with no input at all (every field empty once stripped) returns, in corpus order, exactly the listed images that have
  a tag with score between the bounds, and its message is never \<open>NoTagsFound\<close>.
\<close>

theorem definite_empty_vs_show_all:
  "(let cp = str_strip tx cn_in; en = str_lower tx (str_strip tx en_in); fn = str_lower tx (str_strip tx fn_in);
        sel = (case cn_selected of None \<Rightarrow> [] | Some s \<Rightarrow> s);
        res = search_images_wrapper tx dm db te ie cn_in cn_selected en_in fn_in lo hi fav
    in ((cp \<noteq> [] \<or> en \<noteq> [] \<or> sel \<noteq> []) \<and>
        get_search_tags_from_cn_list dm
          (cn_terms_to_search tx dm (get_all_indexed_tags te db) sel cp) = {} \<and>
        parse_terms tx en = [] \<and> fn = [] \<and> \<not> fav
        \<longrightarrow> res = \<lparr>output_data = [], final_message = NoTagsFound cp,
                    filtered_raw_results = [], gallery_state = []\<rparr>) \<and>
       (cp = [] \<and> en = [] \<and> sel = [] \<and> fn = [] \<and> \<not> fav
        \<longrightarrow> filtered_raw_results res =
              filter (\<lambda>it. \<exists>t \<in> set (item_tags it). in_range lo hi t)
                     (get_all_indexed_images ie db) \<and>
            map fst (output_data res) = map item_file_path (filtered_raw_results res) \<and>
            (\<forall>x. final_message res \<noteq> NoTagsFound x)))"
proof -
  define cp where "cp = str_strip tx cn_in"
  define en where "en = str_lower tx (str_strip tx en_in)"
  define fn where "fn = str_lower tx (str_strip tx fn_in)"
  define sel where "sel = (case cn_selected of None \<Rightarrow> [] | Some s \<Rightarrow> s)"
  define res where "res = search_images_wrapper tx dm db te ie cn_in cn_selected en_in fn_in lo hi fav"
  define cn where "cn = get_search_tags_from_cn_list dm
          (cn_terms_to_search tx dm (get_all_indexed_tags te db) sel cp)"
  define parts where "parts =
       (if sel \<noteq> [] then [CnExact sel]
        else if cp \<noteq> []
        then [CnFuzzy cp (length (cn_terms_to_search tx dm (get_all_indexed_tags te db) sel cp))]
        else []) @ (if en \<noteq> [] then [EnFuzzy (parse_terms tx en)] else [])"
  have res: "res = run_filter tx (cp \<noteq> [] \<or> en \<noteq> [] \<or> sel \<noteq> [] \<or> fn \<noteq> [] \<or> fav) cn
                     (parse_terms tx en) fn cp parts (get_all_indexed_images ie db) lo hi fav"
    by (simp add: res_def search_images_wrapper_def Let_def cp_def en_def fn_def sel_def
          cn_def parts_def)
  have first: "res = \<lparr>output_data = [], final_message = NoTagsFound cp,
                    filtered_raw_results = [], gallery_state = []\<rparr>"
    if "(cp \<noteq> [] \<or> en \<noteq> [] \<or> sel \<noteq> []) \<and> cn = {} \<and> parse_terms tx en = [] \<and> fn = [] \<and> \<not> fav"
    unfolding res using that by (intro run_filter_empty) auto
  have second: "filtered_raw_results res =
              filter (\<lambda>it. \<exists>t \<in> set (item_tags it). in_range lo hi t)
                     (get_all_indexed_images ie db) \<and>
            map fst (output_data res) = map item_file_path (filtered_raw_results res) \<and>
            (\<forall>x. final_message res \<noteq> NoTagsFound x)"
    if h: "cp = [] \<and> en = [] \<and> sel = [] \<and> fn = [] \<and> \<not> fav"
  proof -
    have res': "res = run_filter tx False {} [] [] [] parts (get_all_indexed_images ie db) lo hi False"
      using h by (simp add: res cn_def no_input_terms)
    show ?thesis
      by (simp add: res' run_filter_raw run_filter_out run_filter_message filter_item_show_all
            comp_def)
  qed
  show ?thesis
    using first second
    unfolding Let_def cp_def[symmetric] en_def[symmetric] fn_def[symmetric] sel_def[symmetric]
      res_def[symmetric] cn_def[symmetric]
    by blast
qed

theorem definite_empty_witness:
  "search_images_wrapper ascii_text empty_dictionary db_one False False ''wa'' None [] [] 0.5 1 False =
     \<lparr>output_data = [], final_message = NoTagsFound ''wa'',
      filtered_raw_results = [], gallery_state = []\<rparr> \<and>
   map fst (output_data
     (search_images_wrapper ascii_text empty_dictionary db_one False False [] None [] [] 0.5 1 False))
     = [''a.jpg'']"
  using definite_empty_vs_show_all[where tx = ascii_text and cn_in = "''wa''" and en_in = "[]" and fn_in = "[]" and cn_selected = None
            and dm = empty_dictionary and db = db_one and te = False and ie = False
            and lo = "0.5" and hi = 1 and fav = False]
        definite_empty_vs_show_all[where tx = ascii_text and cn_in = "[]" and en_in = "[]" and fn_in = "[]" and cn_selected = None
            and dm = empty_dictionary and db = db_one and te = False and ie = False
            and lo = "0.5" and hi = 1 and fav = False]
  by (simp add: search_simps db_one_def listing_simps)

text \<open>
  Claim C6, as the code has it, for whatever \<^verbatim>\<open>str.strip\<close>, \<^verbatim>\<open>str.lower\<close> and
  \<^verbatim>\<open>str.split\<close> do. Let the terms resolve to no tag and the English field parse to no
  token. When nothing at all was typed, the images kept are those with a
  tag whose score lies between the bounds. When a file name or the favorites flag is
  set, the images kept are those that pass the favorites filter and the file-name
  filter (the lower-cased path contains the lower-cased, stripped file name), whatever
  their scores. In every case the paths shown are those of the images kept,
  and each annotation lists at most five tags.
\<close>

theorem plain_query_filter:
  "(let cp = str_strip tx cn_in; en = str_lower tx (str_strip tx en_in); fn = str_lower tx (str_strip tx fn_in);
        sel = (case cn_selected of None \<Rightarrow> [] | Some s \<Rightarrow> s);
        res = search_images_wrapper tx dm db te ie cn_in cn_selected en_in fn_in lo hi fav
    in get_search_tags_from_cn_list dm
          (cn_terms_to_search tx dm (get_all_indexed_tags te db) sel cp) = {} \<and>
       parse_terms tx en = []
       \<longrightarrow>
         (cp = [] \<and> en = [] \<and> sel = [] \<and> fn = [] \<and> \<not> fav \<longrightarrow>
            filtered_raw_results res =
              filter (\<lambda>it. \<exists>t \<in> set (item_tags it). in_range lo hi t)
                     (get_all_indexed_images ie db)) \<and>
         (fn \<noteq> [] \<or> fav \<longrightarrow>
            filtered_raw_results res =
              filter (\<lambda>it. (fav \<longrightarrow> item_is_favorite it) \<and>
                           (fn \<noteq> [] \<longrightarrow> contains (str_lower tx (item_file_path it)) fn))
                     (get_all_indexed_images ie db)) \<and>
         map fst (output_data res) = map item_file_path (filtered_raw_results res) \<and>
         (\<forall>(p, t) \<in> set (output_data res). length (title_lines t) \<le> 5))"
proof -
  define cp where "cp = str_strip tx cn_in"
  define en where "en = str_lower tx (str_strip tx en_in)"
  define fn where "fn = str_lower tx (str_strip tx fn_in)"
  define sel where "sel = (case cn_selected of None \<Rightarrow> [] | Some s \<Rightarrow> s)"
  define res where "res = search_images_wrapper tx dm db te ie cn_in cn_selected en_in fn_in lo hi fav"
  define cn where "cn = get_search_tags_from_cn_list dm
          (cn_terms_to_search tx dm (get_all_indexed_tags te db) sel cp)"
  define parts where "parts =
       (if sel \<noteq> [] then [CnExact sel]
        else if cp \<noteq> []
        then [CnFuzzy cp (length (cn_terms_to_search tx dm (get_all_indexed_tags te db) sel cp))]
        else []) @ (if en \<noteq> [] then [EnFuzzy (parse_terms tx en)] else [])"
  define u where "u = (cp \<noteq> [] \<or> en \<noteq> [] \<or> sel \<noteq> [] \<or> fn \<noteq> [] \<or> fav)"
  have res: "res = run_filter tx u cn (parse_terms tx en) fn cp parts
                     (get_all_indexed_images ie db) lo hi fav"
    by (simp add: res_def search_images_wrapper_def Let_def cp_def en_def fn_def sel_def
          cn_def parts_def u_def)
  have main: "(cp = [] \<and> en = [] \<and> sel = [] \<and> fn = [] \<and> \<not> fav \<longrightarrow>
            filtered_raw_results res =
              filter (\<lambda>it. \<exists>t \<in> set (item_tags it). in_range lo hi t)
                     (get_all_indexed_images ie db)) \<and>
         (fn \<noteq> [] \<or> fav \<longrightarrow>
            filtered_raw_results res =
              filter (\<lambda>it. (fav \<longrightarrow> item_is_favorite it) \<and>
                           (fn \<noteq> [] \<longrightarrow> contains (str_lower tx (item_file_path it)) fn))
                     (get_all_indexed_images ie db)) \<and>
         map fst (output_data res) = map item_file_path (filtered_raw_results res) \<and>
         (\<forall>(p, t) \<in> set (output_data res). length (title_lines t) \<le> 5)"
    if h: "cn = {} \<and> parse_terms tx en = []"
  proof -
    have res': "res = run_filter tx u {} [] fn cp parts (get_all_indexed_images ie db) lo hi fav"
      using h by (simp add: res)
    have a: "filtered_raw_results res =
              filter (\<lambda>it. \<exists>t \<in> set (item_tags it). in_range lo hi t)
                     (get_all_indexed_images ie db)"
      if "cp = [] \<and> en = [] \<and> sel = [] \<and> fn = [] \<and> \<not> fav"
      using that by (simp add: res' u_def run_filter_raw filter_item_show_all)
    have b: "filtered_raw_results res =
              filter (\<lambda>it. (fav \<longrightarrow> item_is_favorite it) \<and>
                           (fn \<noteq> [] \<longrightarrow> contains (str_lower tx (item_file_path it)) fn))
                     (get_all_indexed_images ie db)"
      if "fn \<noteq> [] \<or> fav"
    proof -
      have "u" using that by (auto simp: u_def)
      then show ?thesis using that by (auto simp: res' run_filter_raw filter_item_plain)
    qed
    have c: "map fst (output_data res) = map item_file_path (filtered_raw_results res)"
      by (simp add: res' run_filter_raw run_filter_out comp_def)
    have d: "\<forall>(p, t) \<in> set (output_data res). length (title_lines t) \<le> 5"
      unfolding res' by (rule title_lines_le5) simp_all
    show ?thesis using a b c d by blast
  qed
  show ?thesis
    using main
    unfolding Let_def cp_def[symmetric] en_def[symmetric] fn_def[symmetric] sel_def[symmetric]
      res_def[symmetric] cn_def[symmetric]
    by blast
qed

theorem plain_query_witness:
  "map fst (output_data
     (search_images_wrapper ascii_text empty_dictionary db_one False False [] None [] [] 0.95 1 False))
     = [] \<and>
   map fst (output_data
     (search_images_wrapper ascii_text empty_dictionary db_one False False [] None [] [] 0.5 1 False))
     = [''a.jpg''] \<and>
   map fst (output_data
     (search_images_wrapper ascii_text empty_dictionary db_one False False [] None [] ''a'' 0.95 1 False))
     = [''a.jpg'']"
  using plain_query_filter[where tx = ascii_text and cn_in = "[]" and en_in = "[]" and fn_in = "[]" and cn_selected = None
            and dm = empty_dictionary and db = db_one and te = False and ie = False
            and lo = "0.95" and hi = 1 and fav = False]
        plain_query_filter[where tx = ascii_text and cn_in = "[]" and en_in = "[]" and fn_in = "[]" and cn_selected = None
            and dm = empty_dictionary and db = db_one and te = False and ie = False
            and lo = "0.5" and hi = 1 and fav = False]
        plain_query_filter[where tx = ascii_text and cn_in = "[]" and en_in = "[]" and fn_in = "''a''" and cn_selected = None
            and dm = empty_dictionary and db = db_one and te = False and ie = False
            and lo = "0.95" and hi = 1 and fav = False]
  by (simp add: search_simps db_one_def listing_simps startswith_def ascii_lower_char_def)

text \<open>
  Claim C6 as stated fails for a file-name query: with the bounds 0.95 and 1 the image
  \<open>a.jpg\<close>, whose only tag scores 0.9, has no tag in range and is kept all the same.
\<close>

theorem filename_query_ignores_scores:
  "map fst (output_data
     (search_images_wrapper ascii_text empty_dictionary db_one False False [] None [] ''a'' 0.95 1 False))
     = [''a.jpg''] \<and>
   stored_tags db_one ''a.jpg'' = [\<lparr>tag_name = ''cat'', score = 0.9\<rparr>] \<and>
   filter (in_range 0.95 1) (stored_tags db_one ''a.jpg'') = []"
  by (simp add: search_simps db_one_def listing_simps stored_tags_def select_image_id_def
        startswith_def ascii_lower_char_def)

section \<open>Properties of the scan controller\<close>

lemma process_file_simps:
  "st_tagged (process_file e n s fpath) = st_tagged s @ [fpath]"
  "st_trace (process_file e n s fpath) = st_trace s @ [st_status (process_file e n s fpath)]"
  "st_log (process_file e n s fpath) = st_log s"
  "files_processed (st_status (process_file e n s fpath)) = files_processed (st_status s) + 1"
  "total_files (st_status (process_file e n s fpath)) = total_files (st_status s)"
  "is_scanning (st_status (process_file e n s fpath)) = is_scanning (st_status s)"
  "folder (st_status (process_file e n s fpath)) = folder (st_status s)"
  by (simp_all add: process_file_def Let_def)

lemma scan_loop_tagged:
  "\<exists>k \<le> length files. st_tagged (fst (scan_loop e cb n files s)) = st_tagged s @ take k files"
proof (induction files arbitrary: s)
  case Nil
  then show ?case by simp
next
  case (Cons f files)
  let ?s1 = "process_file e n s f"
  from Cons[of ?s1] obtain k where
    k: "k \<le> length files"
       "st_tagged (fst (scan_loop e cb n files ?s1)) = st_tagged ?s1 @ take k files"
    by blast
  show ?case
  proof (cases "cb = None \<or> (\<exists>c. cb = Some c \<and> c (st_status ?s1))")
    case True
    then have "scan_loop e cb n (f # files) s = scan_loop e cb n files ?s1"
      by (auto simp: Let_def)
    then show ?thesis using k
      by (intro exI[of _ "Suc k"]) (simp add: process_file_simps)
  next
    case False
    then have "scan_loop e cb n (f # files) s = (?s1, True)"
      by (auto simp: Let_def split: option.splits)
    then show ?thesis
      by (intro exI[of _ "Suc 0"]) (simp add: process_file_simps)
  qed
qed

lemma scan_loop_tagged_all:
  "st_tagged (fst (scan_loop e None n files s)) = st_tagged s @ files"
  by (induction files arbitrary: s) (simp_all add: Let_def process_file_simps)

lemma scan_loop_total:
  "total_files (st_status (fst (scan_loop e cb n files s))) = total_files (st_status s)"
  by (induction files arbitrary: s)
     (auto simp: Let_def process_file_simps split: option.splits)


lemma start_scan_tagged:
  "st_tagged (start_scan e cb st db folder_path force_rescan) =
     (if is_scanning st \<or> \<not> os_isdir e folder_path then []
      else st_tagged (fst (scan_loop e cb
             (total_files (st_status (scan_setup e
                (st\<lparr>is_scanning := True, total_files := 0, files_processed := 0,
                     progress_percent := 0, folder := folder_path\<rparr>) db folder_path force_rescan)))
             (files_to_scan force_rescan (already_indexed e db force_rescan)
                (all_files_in_folder e folder_path))
             (scan_setup e
                (st\<lparr>is_scanning := True, total_files := 0, files_processed := 0,
                     progress_percent := 0, folder := folder_path\<rparr>) db folder_path force_rescan))))"
  by (simp add: start_scan_def Let_def case_prod_beta)

lemma scan_setup_tagged: "st_tagged (scan_setup e st1 db folder_path force_rescan) = []"
  by (simp add: scan_setup_def Let_def)

lemma scan_eval:
  "map files_processed (st_trace (start_scan ex_env None initial_status db_scan ''pics'' False))
     = [0, 3, 4, 2]"
  "map total_files (st_trace (start_scan ex_env None initial_status db_scan ''pics'' False))
     = [0, 2, 2, 2]"
  "st_tagged (start_scan ex_env None initial_status db_scan ''pics'' False) = [''pics/c.PNG'']"
  "all_files_in_folder ex_env ''pics'' = [''pics/a.jpg'', ''pics/c.PNG'']"
  "get_all_indexed_file_paths (\<lambda>p. p) False db_scan = {''pics/a.jpg'', ''other/x.jpg'', ''other/y.jpg''}"
  by code_simp+

lemma scan_setup_counts:
  "total_files (st_status (scan_setup e st1 db folder_path force_rescan)) =
     int (length (all_files_in_folder e folder_path))"
  "files_processed (st_status (scan_setup e st1 db folder_path force_rescan)) =
     (if force_rescan then 0
      else int (card (get_all_indexed_file_paths (os_normpath e) (paths_error e) db)))"
  "is_scanning (st_status (scan_setup e st1 db folder_path force_rescan)) = is_scanning st1"
  by (simp_all add: scan_setup_def Let_def already_indexed_def)

lemma finish_terminal:
  "0 \<le> total_files st \<Longrightarrow>
     \<not> is_scanning (finish st) \<and> total_files (finish st) = total_files st \<and>
     (if total_files st > 0
      then files_processed (finish st) = total_files st \<and> progress_percent (finish st) = 100
      else files_processed (finish st) = 0 \<and> progress_percent (finish st) = 0)"
  by (simp add: finish_def Let_def)

text \<open>The status a scan leaves behind when it was started while idle.\<close>

lemma scan_terminal_status:
  assumes "\<not> is_scanning st"
  shows "\<not> is_scanning (st_status (start_scan e cb st db folder_path force_rescan)) \<and>
     (if total_files (st_status (start_scan e cb st db folder_path force_rescan)) > 0
      then files_processed (st_status (start_scan e cb st db folder_path force_rescan)) =
             total_files (st_status (start_scan e cb st db folder_path force_rescan)) \<and>
           progress_percent (st_status (start_scan e cb st db folder_path force_rescan)) = 100
      else files_processed (st_status (start_scan e cb st db folder_path force_rescan)) = 0 \<and>
           progress_percent (st_status (start_scan e cb st db folder_path force_rescan)) = 0)"
proof (cases "os_isdir e folder_path")
  case False
  then show ?thesis using assms by (simp add: start_scan_def Let_def)
next
  case True
  let ?s0 = "scan_setup e (st\<lparr>is_scanning := True, total_files := 0, files_processed := 0,
                     progress_percent := 0, folder := folder_path\<rparr>) db folder_path force_rescan"
  let ?s = "fst (scan_loop e cb (total_files (st_status ?s0))
                  (files_to_scan force_rescan (already_indexed e db force_rescan)
                     (all_files_in_folder e folder_path)) ?s0)"
  have st: "st_status (start_scan e cb st db folder_path force_rescan) = finish (st_status ?s)"
    using True assms by (simp add: start_scan_def Let_def case_prod_beta)
  have "0 \<le> total_files (st_status ?s)"
    by (simp add: scan_loop_total scan_setup_counts)
  from finish_terminal[OF this] show ?thesis unfolding st by simp
qed

text \<open>
  Claim C1. In a scan that is not forced, every path handed to the tagger is a file
  found under the folder that is not in the set of indexed paths read at the start of
  the scan: no indexed path is ever tagged. When the scan starts from idle on a valid
  folder and nothing interrupts the loop, the paths tagged are exactly the found files
  outside that set, in the order found.
\<close>

theorem skip_set_respected:
  "set (st_tagged (start_scan e cb st db folder_path False))
     \<subseteq> set (all_files_in_folder e folder_path)
         - get_all_indexed_file_paths (os_normpath e) (paths_error e) db \<and>
   (\<not> is_scanning st \<and> os_isdir e folder_path \<and> cb = None \<longrightarrow>
      st_tagged (start_scan e cb st db folder_path False) =
        filter (\<lambda>p. p \<notin> get_all_indexed_file_paths (os_normpath e) (paths_error e) db)
               (all_files_in_folder e folder_path))"
proof -
  let ?idx = "get_all_indexed_file_paths (os_normpath e) (paths_error e) db"
  let ?all = "all_files_in_folder e folder_path"
  let ?todo = "files_to_scan False (already_indexed e db False) ?all"
  have todo: "?todo = filter (\<lambda>p. p \<notin> ?idx) ?all"
    by (simp add: files_to_scan_def already_indexed_def)
  have sub: "set (st_tagged (start_scan e cb st db folder_path False)) \<subseteq> set ?todo"
  proof (cases "is_scanning st \<or> \<not> os_isdir e folder_path")
    case True
    then show ?thesis by (simp add: start_scan_tagged)
  next
    case False
    let ?s0 = "scan_setup e (st\<lparr>is_scanning := True, total_files := 0, files_processed := 0,
                     progress_percent := 0, folder := folder_path\<rparr>) db folder_path False"
    from scan_loop_tagged[of ?todo e cb "total_files (st_status ?s0)" ?s0]
    obtain k where "st_tagged (fst (scan_loop e cb (total_files (st_status ?s0)) ?todo ?s0))
                      = take k ?todo"
      by (auto simp: scan_setup_tagged)
    then have "st_tagged (start_scan e cb st db folder_path False) = take k ?todo"
      using False by (simp add: start_scan_tagged)
    then show ?thesis by (simp add: set_take_subset)
  qed
  have first: "set (st_tagged (start_scan e cb st db folder_path False)) \<subseteq> set ?all - ?idx"
    using sub unfolding todo by auto
  have second: "st_tagged (start_scan e cb st db folder_path False) = filter (\<lambda>p. p \<notin> ?idx) ?all"
    if "\<not> is_scanning st \<and> os_isdir e folder_path \<and> cb = None"
    using that by (simp add: start_scan_tagged scan_loop_tagged_all scan_setup_tagged todo)
  show ?thesis using first second by blast
qed

theorem skip_set_witness:
  "st_tagged (start_scan ex_env None initial_status db_scan ''pics'' False) = [''pics/c.PNG''] \<and>
   ''pics/a.jpg'' \<in> set (all_files_in_folder ex_env ''pics'') \<and>
   ''pics/a.jpg'' \<in> get_all_indexed_file_paths (\<lambda>p. p) False db_scan"
  using skip_set_respected[where e = ex_env and cb = None and st = initial_status
          and db = db_scan and folder_path = "''pics''"]
        scan_eval(3,4,5)
  by simp

lemma start_scan_trace:
  assumes "\<not> is_scanning st" "os_isdir e folder_path"
  shows "st_trace (start_scan e cb st db folder_path force_rescan) =
     st_trace (fst (scan_loop e cb
        (total_files (st_status (scan_setup e (st\<lparr>is_scanning := True, total_files := 0,
             files_processed := 0, progress_percent := 0, folder := folder_path\<rparr>)
             db folder_path force_rescan)))
        (files_to_scan force_rescan (already_indexed e db force_rescan)
           (all_files_in_folder e folder_path))
        (scan_setup e (st\<lparr>is_scanning := True, total_files := 0,
             files_processed := 0, progress_percent := 0, folder := folder_path\<rparr>)
             db folder_path force_rescan))) @
     [finish (st_status (fst (scan_loop e cb
        (total_files (st_status (scan_setup e (st\<lparr>is_scanning := True, total_files := 0,
             files_processed := 0, progress_percent := 0, folder := folder_path\<rparr>)
             db folder_path force_rescan)))
        (files_to_scan force_rescan (already_indexed e db force_rescan)
           (all_files_in_folder e folder_path))
        (scan_setup e (st\<lparr>is_scanning := True, total_files := 0,
             files_processed := 0, progress_percent := 0, folder := folder_path\<rparr>)
             db folder_path force_rescan))))]"
  using assms by (simp add: start_scan_def Let_def case_prod_beta)

lemma rising_process_file: "rising s \<Longrightarrow> rising (process_file e n s f)"
  by (auto simp: rising_def process_file_simps sorted_append)

lemma scan_loop_rising:
  "rising s \<Longrightarrow>
     rising (fst (scan_loop e cb n files s)) \<and>
     files_processed (st_status (fst (scan_loop e cb n files s)))
       \<le> files_processed (st_status s) + int (length files)"
proof (induction files arbitrary: s)
  case Nil
  then show ?case by simp
next
  case (Cons f files)
  let ?s1 = "process_file e n s f"
  have r1: "rising ?s1" using Cons.prems by (rule rising_process_file)
  note ih = Cons.IH[OF r1]
  show ?case
  proof (cases "cb = None \<or> (\<exists>c. cb = Some c \<and> c (st_status ?s1))")
    case True
    then have "scan_loop e cb n (f # files) s = scan_loop e cb n files ?s1"
      by (auto simp: Let_def)
    then show ?thesis using ih by (simp add: process_file_simps)
  next
    case False
    then have "scan_loop e cb n (f # files) s = (?s1, True)"
      by (auto simp: Let_def split: option.splits)
    then show ?thesis using r1 by (simp add: process_file_simps)
  qed
qed

text \<open>A forced scan counts from zero, and there the visible counts never decrease.\<close>

lemma forced_scan_monotone:
  assumes "\<not> is_scanning st"
  shows "sorted (map files_processed (st_trace (start_scan e cb st db folder_path True)))"
proof (cases "os_isdir e folder_path")
  case False
  then show ?thesis using assms by (simp add: start_scan_def Let_def)
next
  case True
  define st1 where "st1 = st\<lparr>is_scanning := True, total_files := 0, files_processed := 0,
                     progress_percent := 0, folder := folder_path\<rparr>"
  define s0 where "s0 = scan_setup e st1 db folder_path True"
  define all_files where "all_files = all_files_in_folder e folder_path"
  define s where "s = fst (scan_loop e cb (total_files (st_status s0)) all_files s0)"
  have todo: "files_to_scan True (already_indexed e db True) (all_files_in_folder e folder_path)
                = all_files"
    by (simp add: files_to_scan_def all_files_def)
  have tr: "st_trace (start_scan e cb st db folder_path True) =
              st_trace s @ [finish (st_status s)]"
    unfolding start_scan_trace[OF assms True] todo s_def s0_def st1_def ..
  have r0: "rising s0"
    unfolding s0_def st1_def by (simp add: rising_def scan_setup_def Let_def)
  have fp0: "files_processed (st_status s0) = 0"
    unfolding s0_def by (simp add: scan_setup_counts)
  have tot0: "total_files (st_status s0) = int (length all_files)"
    unfolding s0_def all_files_def by (simp add: scan_setup_counts)
  have r: "rising s" and le: "files_processed (st_status s) \<le> int (length all_files)"
    using scan_loop_rising[OF r0, of e cb "total_files (st_status s0)" all_files]
    unfolding s_def fp0 by simp_all
  have tot: "total_files (st_status s) = int (length all_files)"
    unfolding s_def by (simp add: scan_loop_total tot0)
  have fin: "files_processed (finish (st_status s)) = int (length all_files)"
    using tot by (simp add: finish_def Let_def)
  have bound: "files_processed x \<le> int (length all_files)" if "x \<in> set (st_trace s)" for x
  proof -
    have "files_processed x \<le> files_processed (st_status s)"
      using r that by (simp add: rising_def)
    then show ?thesis using le by linarith
  qed
  have "sorted (map files_processed (st_trace s))"
    using r by (simp add: rising_def)
  then have "sorted (map files_processed (st_trace s) @ [int (length all_files)])"
    using bound by (simp add: sorted_append)
  then show ?thesis by (simp add: tr fin)
qed

text \<open>
  Claim C3, on a database that also indexes files of another folder. The folder
  \<open>pics\<close> holds two supported files, one of them indexed; the database indexes three
  paths. After the enumeration the total is 2, as claimed, but the processed count is
  3, the size of the whole index, where the claim gives 1, the number of found files
  that are indexed.
\<close>

theorem seed_counts_whole_index:
  "total_files (st_trace (start_scan ex_env None initial_status db_scan ''pics'' False) ! 1) = 2 \<and>
   files_processed (st_trace (start_scan ex_env None initial_status db_scan ''pics'' False) ! 1)
     = 3 \<and>
   length (filter (\<lambda>p. p \<in> get_all_indexed_file_paths (os_normpath ex_env)
                              (paths_error ex_env) db_scan)
                  (all_files_in_folder ex_env ''pics'')) = 1"
  by code_simp

text \<open>
  Claim C4, on the same scan. The processed counts a reader can see are 0, 3, 4 and at
  the end 2: the count set in the final block is below the one before it, so the
  sequence is not monotone. (The final status itself is as claimed, see
  \<open>scan_terminal_status\<close>, and a forced scan, which counts from zero, is monotone,
  see \<open>forced_scan_monotone\<close>.)
\<close>

theorem progress_not_monotone:
  "map files_processed
     (st_trace (start_scan ex_env None initial_status db_scan ''pics'' False)) = [0, 3, 4, 2] \<and>
   \<not> sorted (map files_processed
     (st_trace (start_scan ex_env None initial_status db_scan ''pics'' False)))"
  by code_simp

text \<open>
  Claim C8, as the code has it. A scan started while idle on a path that is not a
  directory reports the invalid path, tags nothing, leaves the database alone and ends
  idle. The status is changed all the same: the flag is set before the path is checked,
  so a reader can see the scanning state, and the counters stay reset to zero with the
  folder set to the rejected path.
\<close>

theorem invalid_folder_rejected:
  "\<not> is_scanning st \<and> \<not> os_isdir e folder_path \<longrightarrow>
     start_scan e cb st db folder_path force_rescan =
       \<lparr>st_status = \<lparr>is_scanning = False, total_files = 0, files_processed = 0,
                     progress_percent = 0, folder = folder_path\<rparr>,
        st_db = db,
        st_trace = [\<lparr>is_scanning = True, total_files = 0, files_processed = 0,
                     progress_percent = 0, folder = folder_path\<rparr>,
                    \<lparr>is_scanning = False, total_files = 0, files_processed = 0,
                     progress_percent = 0, folder = folder_path\<rparr>],
        st_tagged = [],
        st_log = [EngineStart folder_path force_rescan, InvalidPath folder_path]\<rparr>"
  by (cases st) (simp add: start_scan_def Let_def)

theorem invalid_folder_witness:
  "\<not> is_scanning status_done \<and> \<not> os_isdir ex_env ''nodir'' \<and>
   st_status (start_scan ex_env None status_done db_scan ''nodir'' False) =
     \<lparr>is_scanning = False, total_files = 0, files_processed = 0,
      progress_percent = 0, folder = ''nodir''\<rparr> \<and>
   st_db (start_scan ex_env None status_done db_scan ''nodir'' False) = db_scan \<and>
   st_log (start_scan ex_env None status_done db_scan ''nodir'' False) =
     [EngineStart ''nodir'' False, InvalidPath ''nodir'']"
  using invalid_folder_rejected[where st = status_done and e = ex_env
          and folder_path = "''nodir''" and cb = None and db = db_scan and force_rescan = False]
  by (simp add: status_done_def ex_env_def)

text \<open>
  Claim C8 as stated fails: after a finished scan of three files, a start on the
  invalid path \<open>nodir\<close> leaves a status that differs from the one before the call, and
  the first status a reader can see during the call has the scanning flag set.
\<close>

theorem invalid_folder_changes_status:
  "\<not> is_scanning status_done \<and> \<not> os_isdir ex_env ''nodir'' \<and>
   st_status (start_scan ex_env None status_done db_scan ''nodir'' False) \<noteq> status_done \<and>
   map is_scanning (st_trace (start_scan ex_env None status_done db_scan ''nodir'' False))
     = [True, False]"
  by (simp add: start_scan_def Let_def status_done_def ex_env_def)

end
